theory Spec2Isabelle
  imports Main
begin

section \<open>Shared vocabulary\<close>

text \<open>
  Values that cross the Bot/Adapter boundary. Contents and destinations are Go interface
  values whose dynamic type the gitter adapter inspects; only the dynamic types the
  source distinguishes are kept apart.
\<close>

type_synonym Room = string

datatype content = StringContent string | OtherContent nat

datatype destination = RoomDest Room | OtherDest nat

record BotInput =
  payload :: string
  ReplyTo :: destination

record PluginResponse =
  Content :: content

record OutputMessage =
  out_Destination :: destination
  out_Content :: content

definition NewOutputMessage :: "destination \<Rightarrow> content \<Rightarrow> OutputMessage" where
  "NewOutputMessage d c = \<lparr>out_Destination = d, out_Content = c\<rparr>"

text \<open>One line written through the log package, with its severity.\<close>

datatype log_entry = Debug string | Info string | Warn string | Error string

text \<open>How a goroutine's function stands once the scripted environment is used up.\<close>

datatype status = Returned | Blocked | Panicked | OutOfFuel

section \<open>The gitter adapter\<close>

subsection \<open>Receiving from one connection\<close>

text \<open>
  The error half of \<open>MessageReceiver.Receive\<close>: the sentinel \<open>EmptyPayloadError\<close>, a
  \<open>*MalformedPayloadError\<close>, or an error of any other kind. A receiver is the finite
  prefix of results it delivers; after the prefix \<open>Receive\<close> does not come back.
\<close>

datatype recv_error = EmptyPayloadError | MalformedPayloadError string | OtherError string

fun error_string :: "recv_error \<Rightarrow> string" where
  "error_string EmptyPayloadError = ''empty payload''"
| "error_string (MalformedPayloadError m) = m"
| "error_string (OtherError m) = m"

type_synonym received = "BotInput \<times> recv_error option"

text \<open>
  What \<open>receiveMessageRecursive\<close> has done: the messages sent on \<open>receivedMessage\<close>, the
  log lines, and the returned error (\<open>recv_status\<close> is \<open>Blocked\<close> while it has not
  returned; \<open>recv_err = None\<close> with \<open>Returned\<close> would be a nil error).
\<close>

record recv_outcome =
  forwarded :: "BotInput list"
  recv_log :: "log_entry list"
  recv_status :: status
  recv_err :: "recv_error option"

fun receive_loop :: "received list \<Rightarrow> BotInput list \<Rightarrow> log_entry list \<Rightarrow> recv_outcome" where
  "receive_loop [] ch lg =
     \<lparr>forwarded = ch, recv_log = lg, recv_status = Blocked, recv_err = None\<rparr>"
| "receive_loop ((message, err) # rest) ch lg =
     (if err = Some EmptyPayloadError then receive_loop rest ch lg
      else case err of
        Some (MalformedPayloadError m) \<Rightarrow>
          receive_loop rest ch (lg @ [Warn (''skipping malformed input: '' @ m)])
      | Some e \<Rightarrow> \<lparr>forwarded = ch, recv_log = lg, recv_status = Returned, recv_err = Some e\<rparr>
      | None \<Rightarrow> receive_loop rest (ch @ [message]) lg)"

definition receiveMessageRecursive :: "received list \<Rightarrow> recv_outcome" where
  "receiveMessageRecursive messageReceiver =
     receive_loop messageReceiver [] [Info ''start receiving message'']"

text \<open>The classification the loop applies to one result.\<close>

fun fatal :: "received \<Rightarrow> bool" where
  "fatal (m, Some (OtherError e)) = True"
| "fatal (m, _) = False"

fun delivered :: "received list \<Rightarrow> BotInput list" where
  "delivered [] = []"
| "delivered ((m, None) # rest) = m # delivered rest"
| "delivered ((m, Some e) # rest) = delivered rest"

fun malformed_warnings :: "received list \<Rightarrow> log_entry list" where
  "malformed_warnings [] = []"
| "malformed_warnings ((m, Some (MalformedPayloadError t)) # rest) =
     Warn (''skipping malformed input: '' @ t) # malformed_warnings rest"
| "malformed_warnings (r # rest) = malformed_warnings rest"

subsection \<open>The clients and the adapter's state\<close>

text \<open>
  The REST and streaming clients, the connections and the context are outside the
  adapter. They are scripted: \<open>Rooms n\<close> and \<open>Connect room n\<close> are the Go result pairs
  (value, error) of the \<open>n\<close>-th call this goroutine makes, \<open>stream c\<close> is what connection
  \<open>c\<close> delivers, and \<open>ctx_done k\<close> tells whether \<open>ctx.Done()\<close> is ready at the \<open>k\<close>-th
  \<open>select\<close>.
\<close>

record world =
  Rooms :: "nat \<Rightarrow> Room list option \<times> string option"
  Connect :: "Room \<Rightarrow> nat \<Rightarrow> nat option \<times> string option"
  stream :: "nat \<Rightarrow> received list"
  ctx_done :: "nat \<Rightarrow> bool"

text \<open>Errors a Bot pushes onto its error channel.\<close>

datatype bot_error = BotNonContinuableError string | GenericError string

text \<open>
  Modelled from the spec: \<open>sarah.NewBotAdapterNonContinuableError\<close> is not among the
  sources; the spec calls its result the non-continuable fatal error marker that the
  Runner's watch loop recognises.
\<close>

definition NewBotAdapterNonContinuableError :: "string \<Rightarrow> bot_error" where
  "NewBotAdapterNonContinuableError m = BotNonContinuableError m"

record adapter_state =
  rooms_calls :: nat
  connect_calls :: nat
  selects :: nat
  receivedMessage :: "BotInput list"
  errCh :: "bot_error list"
  closed_conns :: "nat list"
  posted :: "(Room \<times> string) list"
  spawned :: "Room list"
  alog :: "log_entry list"

definition adapter0 :: adapter_state where
  "adapter0 = \<lparr>rooms_calls = 0, connect_calls = 0, selects = 0, receivedMessage = [],
     errCh = [], closed_conns = [], posted = [], spawned = [], alog = []\<rparr>"

subsection \<open>Bounded retry\<close>

text \<open>
  Modelled from the spec: \<open>retry.RetryInterval\<close> is not among the sources. The spec
  describes a bounded-retry helper with a fixed attempt cap and a fixed sleep between
  attempts, whose exhaustion surfaces as an error to the caller. The function is tried
  until it returns no error, at most \<open>trial\<close> times; the errors of the failed attempts
  are what exhaustion returns. The sleep is not part of the state.
\<close>

fun retry_loop :: "nat \<Rightarrow> ('s \<Rightarrow> string option \<times> 's) \<Rightarrow> string list \<Rightarrow> 's
    \<Rightarrow> string list option \<times> 's" where
  "retry_loop 0 f errs s = (Some errs, s)"
| "retry_loop (Suc trial) f errs s =
     (case f s of
        (None, s') \<Rightarrow> (None, s')
      | (Some e, s') \<Rightarrow> retry_loop trial f (errs @ [e]) s')"

definition RetryInterval :: "nat \<Rightarrow> ('s \<Rightarrow> string option \<times> 's) \<Rightarrow> 's \<Rightarrow> string list option \<times> 's" where
  "RetryInterval trial f s = retry_loop trial f [] s"

definition Error_text :: "string list \<Rightarrow> string" where
  "Error_text errs = concat errs"

subsection \<open>Connecting and fetching\<close>

text \<open>
  The function literals handed to \<open>RetryInterval\<close> assign the captured variable
  (\<open>conn\<close>, \<open>rooms\<close>) on every attempt; the variable travels with the state.
\<close>

definition connect_attempt :: "world \<Rightarrow> Room \<Rightarrow> nat option \<times> adapter_state
    \<Rightarrow> string option \<times> (nat option \<times> adapter_state)" where
  "connect_attempt w room = (\<lambda>(conn, s).
     (let (r, e) = Connect w room (connect_calls s);
          s1 = s\<lparr>connect_calls := Suc (connect_calls s)\<rparr>;
          s2 = (case e of None \<Rightarrow> s1 | Some m \<Rightarrow> s1\<lparr>alog := alog s1 @ [Error m]\<rparr>)
      in (e, (r, s2))))"

definition connectRoom :: "world \<Rightarrow> Room \<Rightarrow> adapter_state
    \<Rightarrow> (nat option \<times> string list option) \<times> adapter_state" where
  "connectRoom w room s =
     (let (err, (conn, s')) = RetryInterval 10 (connect_attempt w room) (None, s)
      in ((conn, err), s'))"

definition rooms_attempt :: "world \<Rightarrow> Room list option \<times> adapter_state
    \<Rightarrow> string option \<times> (Room list option \<times> adapter_state)" where
  "rooms_attempt w = (\<lambda>(rooms, s).
     (let (r, e) = Rooms w (rooms_calls s)
      in (e, (r, s\<lparr>rooms_calls := Suc (rooms_calls s)\<rparr>))))"

definition fetchRooms :: "world \<Rightarrow> adapter_state
    \<Rightarrow> (Room list option \<times> string list option) \<times> adapter_state" where
  "fetchRooms w s =
     (let (err, (rooms, s')) = RetryInterval 10 (rooms_attempt w) (None, s)
      in ((rooms, err), s'))"

subsection \<open>One room\<close>

text \<open>
  The statements of \<open>runEachRoom\<close> after \<open>receiveMessageRecursive\<close> has returned
  \<open>connErr\<close>: close the connection, then return on nil (the flag is \<open>False\<close>) or log and
  go round again (\<open>True\<close>).
\<close>

definition after_receive :: "nat \<Rightarrow> recv_error option \<Rightarrow> adapter_state \<Rightarrow> bool \<times> adapter_state" where
  "after_receive conn connErr s =
     (let s1 = s\<lparr>closed_conns := closed_conns s @ [conn]\<rparr>
      in case connErr of
           None \<Rightarrow> (False, s1)
         | Some e \<Rightarrow> (True, s1\<lparr>alog := alog s1 @ [Error (error_string e)]\<rparr>))"

text \<open>
  The loop may reconnect for ever, so it runs on fuel: one unit per iteration. A nil
  connection with a nil error makes \<open>Receive\<close> a nil-interface call.
\<close>

fun runEachRoom :: "nat \<Rightarrow> world \<Rightarrow> Room \<Rightarrow> adapter_state \<Rightarrow> status \<times> adapter_state" where
  "runEachRoom 0 w room s = (OutOfFuel, s)"
| "runEachRoom (Suc n) w room s =
     (let s0 = s\<lparr>selects := Suc (selects s)\<rparr> in
      if ctx_done w (selects s) then (Returned, s0)
      else
        (let s1 = s0\<lparr>alog := alog s0 @ [Info (''connecting to room: '' @ room)]\<rparr>;
             ((conn, err), s2) = connectRoom w room s1
         in if err \<noteq> None
            then (Returned, s2\<lparr>alog := alog s2 @ [Warn (''could not connect to room: '' @ room)]\<rparr>)
            else case conn of
              None \<Rightarrow> (Panicked, s2)
            | Some c \<Rightarrow>
               (let r = receiveMessageRecursive (stream w c);
                    s3 = s2\<lparr>receivedMessage := receivedMessage s2 @ forwarded r,
                            alog := alog s2 @ recv_log r\<rparr>
                in if recv_status r \<noteq> Returned then (Blocked, s3)
                   else (case after_receive c (recv_err r) s3 of
                           (False, s4) \<Rightarrow> (Returned, s4)
                         | (True, s4) \<Rightarrow> runEachRoom n w room s4))))"

subsection \<open>Run and SendMessage\<close>

text \<open>
  \<open>go adapter.runEachRoom(ctx, room, receivedMessage)\<close> evaluates \<open>room\<close> when the
  statement runs, so each started goroutine is recorded with its own room. Dereferencing
  a nil \<open>*Rooms\<close> panics.
\<close>

definition Adapter_Run :: "world \<Rightarrow> adapter_state \<Rightarrow> status \<times> adapter_state" where
  "Adapter_Run w s =
     (let ((rooms, err), s1) = fetchRooms w s
      in case err of
           Some errs \<Rightarrow>
             (Returned, s1\<lparr>errCh := errCh s1 @ [NewBotAdapterNonContinuableError (Error_text errs)]\<rparr>)
         | None \<Rightarrow>
             (case rooms of
                None \<Rightarrow> (Panicked, s1)
              | Some rs \<Rightarrow> (Returned, s1\<lparr>spawned := spawned s1 @ rs\<rparr>)))"

definition Adapter_SendMessage :: "OutputMessage \<Rightarrow> adapter_state \<Rightarrow> adapter_state" where
  "Adapter_SendMessage output s =
     (case out_Content output of
        StringContent c \<Rightarrow>
          (case out_Destination output of
             RoomDest room \<Rightarrow> s\<lparr>posted := posted s @ [(room, c)]\<rparr>
           | OtherDest d \<Rightarrow> s\<lparr>alog := alog s @ [Error ''Destination is not instance of Room.'']\<rparr>)
      | OtherContent x \<Rightarrow> s\<lparr>alog := alog s @ [Warn ''unexpected output'']\<rparr>)"

section \<open>The Runner\<close>

subsection \<open>Contexts, Bots, tasks\<close>

text \<open>
  \<open>context.WithCancel(parent)\<close> makes a child that is done once it or an ancestor has
  been cancelled. A \<open>CancelFunc\<close> is identified with the context it cancels.
\<close>

datatype "context" = Background | Child "context" nat

fun Done :: "context set \<Rightarrow> context \<Rightarrow> bool" where
  "Done C Background = (Background \<in> C)"
| "Done C (Child parent i) = (Child parent i \<in> C \<or> Done C parent)"

text \<open>
  A Bot is an interface value; what the Runner reads from it are \<open>BotType()\<close>,
  \<open>PluginConfigDir()\<close> and the result pair of \<open>Respond\<close>. Its \<open>SendMessage\<close>, \<open>Run\<close>
  and \<open>AppendCommand\<close> are effects, recorded in the state below.
\<close>

record Bot =
  BotType :: string
  PluginConfigDir :: string
  Respond :: "context \<Rightarrow> BotInput \<Rightarrow> PluginResponse option \<times> string option"

record Adapter =
  adapter_BotType :: string

record ScheduledTask =
  Identifier :: string
  Schedule :: string
  Destination :: destination
  Execute :: "context \<Rightarrow> PluginResponse option \<times> string option"

text \<open>
  The stashed builders are not among the sources: what they build for a BotType and a
  plugin configuration directory is a parameter.
\<close>

record stash =
  build_commands :: "string \<Rightarrow> string \<Rightarrow> string list"
  build_tasks :: "string \<Rightarrow> string \<Rightarrow> ScheduledTask list"

subsection \<open>Variables, closures, goroutines\<close>

text \<open>
  The function literal given to \<open>cron.AddFunc\<close> refers to the variables \<open>task\<close>,
  \<open>botCtx\<close> and \<open>bot\<close> of \<open>Run\<close>. A Go closure captures variables, not values, so
  the variables live in a store and a closure holds their addresses. Under the
  language version of this module (go 1.11) a \<open>for ... range\<close> statement has one
  variable for all its iterations.
\<close>

datatype val = VBot Bot | VTask ScheduledTask | VCtx "context"

record closure =
  task_ref :: nat
  bot_ref :: nat
  ctx_ref :: nat

text \<open>The function literal of \<open>respond\<close>; its three variables are not assigned again.\<close>

datatype job = RespondJob "context" Bot BotInput

text \<open>
  The three \<open>go\<close> statements of \<open>Run\<close>, with their arguments as evaluated when the
  statement runs; the channels made for the \<open>i\<close>-th Bot are numbered \<open>i\<close>.
\<close>

datatype goroutine =
    GoRespond "context" Bot nat
  | GoStopUnrecoverableBot nat "context"
  | GoBotRun "context" Bot nat nat

record runner_state =
  queueSize :: nat
  bots :: "Bot list"
  worker_started :: bool
  worker_queue :: "job list"
  cron_entries :: "(string \<times> closure) list"
  cron_started :: bool
  store :: "nat \<rightharpoonup> val"
  next_addr :: nat
  goroutines :: "goroutine list"
  logged :: "log_entry list"
  sent :: "(Bot \<times> context \<times> OutputMessage) list"
  executed :: "(string \<times> context) list"
  appended :: "(string \<times> string) list"
  cancelled :: "context set"

definition NewRunner :: "nat \<Rightarrow> runner_state" where
  "NewRunner qs = \<lparr>queueSize = qs, bots = [], worker_started = False, worker_queue = [],
     cron_entries = [], cron_started = False, store = Map.empty, next_addr = 0,
     goroutines = [], logged = [], sent = [], executed = [], appended = [],
     cancelled = {}\<rparr>"

subsection \<open>Registration\<close>

definition RegisterBot :: "runner_state \<Rightarrow> Bot \<Rightarrow> runner_state" where
  "RegisterBot runner b = runner\<lparr>bots := bots runner @ [b]\<rparr>"

text \<open>
  \<open>newBot\<close> is not among the sources and is a parameter. The panic is the \<open>Inl\<close> value.
\<close>

definition RegisterAdapter :: "(Adapter \<Rightarrow> string \<Rightarrow> Bot) \<Rightarrow> runner_state \<Rightarrow> Adapter \<Rightarrow> string
    \<Rightarrow> string + runner_state" where
  "RegisterAdapter newBot runner adapter pluginConfigDir =
     (if list_ex (\<lambda>b. BotType b = adapter_BotType adapter) (bots runner)
      then Inl (''BotType ('' @ adapter_BotType adapter @ '') conflicted with stored Adapter.'')
      else Inr (RegisterBot runner (newBot adapter pluginConfigDir)))"

subsection \<open>Run\<close>

text \<open>
  \<open>worker.EnqueueJob\<close> is not among the sources; the job is put at the end of the
  Worker Pool's queue (waiting for room in a full queue is left out).
\<close>

definition EnqueueJob :: "job \<Rightarrow> runner_state \<Rightarrow> runner_state" where
  "EnqueueJob j runner = runner\<lparr>worker_queue := worker_queue runner @ [j]\<rparr>"

text \<open>
  The inner loop over the built tasks. \<open>a_task\<close> is the one variable \<open>task\<close> of this
  \<open>for\<close> statement: each iteration assigns it, evaluates \<open>task.config.Schedule()\<close> and
  hands the closure to the scheduler. \<open>AddFunc\<close> keeps the entry when the scheduler
  accepts the schedule; its error result is dropped by the source.
\<close>

fun add_tasks :: "(string \<Rightarrow> bool) \<Rightarrow> nat \<Rightarrow> nat \<Rightarrow> nat \<Rightarrow> ScheduledTask list \<Rightarrow> runner_state
    \<Rightarrow> runner_state" where
  "add_tasks accepts a_task a_bot a_ctx [] st = st"
| "add_tasks accepts a_task a_bot a_ctx (t # ts) st =
     (let st1 = st\<lparr>store := (store st)(a_task \<mapsto> VTask t)\<rparr>;
          st2 = (if accepts (Schedule t)
                 then st1\<lparr>cron_entries := cron_entries st1 @
                        [(Schedule t, \<lparr>task_ref = a_task, bot_ref = a_bot, ctx_ref = a_ctx\<rparr>)]\<rparr>
                 else st1)
      in add_tasks accepts a_task a_bot a_ctx ts st2)"

text \<open>
  The outer loop. \<open>a_bot\<close> is the one variable \<open>bot\<close>; \<open>botCtx\<close> is declared in the
  body, so every iteration has a fresh one.
\<close>

fun run_bots :: "stash \<Rightarrow> (string \<Rightarrow> bool) \<Rightarrow> context \<Rightarrow> nat \<Rightarrow> nat \<Rightarrow> Bot list \<Rightarrow> runner_state
    \<Rightarrow> runner_state" where
  "run_bots sh accepts ctx a_bot i [] st = st"
| "run_bots sh accepts ctx a_bot i (b # bs) st =
     (let st1 = st\<lparr>store := (store st)(a_bot \<mapsto> VBot b)\<rparr>;
          botType = BotType b;
          st2 = st1\<lparr>logged := logged st1 @ [Info (''starting '' @ botType)]\<rparr>;
          botCtx = Child ctx i;
          a_ctx = next_addr st2;
          st3 = st2\<lparr>store := (store st2)(a_ctx \<mapsto> VCtx botCtx), next_addr := Suc a_ctx\<rparr>;
          commands = build_commands sh botType (PluginConfigDir b);
          st4 = st3\<lparr>appended := appended st3 @ map (Pair botType) commands\<rparr>;
          tasks = build_tasks sh botType (PluginConfigDir b);
          a_task = next_addr st4;
          st5 = add_tasks accepts a_task a_bot a_ctx tasks (st4\<lparr>next_addr := Suc a_task\<rparr>);
          st6 = st5\<lparr>goroutines := goroutines st5 @
                  [GoRespond botCtx b i, GoStopUnrecoverableBot i botCtx, GoBotRun botCtx b i i]\<rparr>
      in run_bots sh accepts ctx a_bot (Suc i) bs st6)"

definition Runner_Run :: "stash \<Rightarrow> (string \<Rightarrow> bool) \<Rightarrow> context \<Rightarrow> runner_state \<Rightarrow> runner_state" where
  "Runner_Run sh accepts ctx runner =
     (let st1 = runner\<lparr>worker_started := True\<rparr>;
          a_bot = next_addr st1;
          st2 = run_bots sh accepts ctx a_bot 0 (bots st1) (st1\<lparr>next_addr := Suc a_bot\<rparr>)
      in st2\<lparr>cron_started := True\<rparr>)"

subsection \<open>A cron firing\<close>

text \<open>
  The scheduler calls the function literal. Its body reads the captured variables when
  it runs.
\<close>

definition fire :: "closure \<Rightarrow> runner_state \<Rightarrow> runner_state" where
  "fire c st =
     (case store st (task_ref c) of
        Some (VTask task) \<Rightarrow>
          (case store st (bot_ref c) of
             Some (VBot b) \<Rightarrow>
               (case store st (ctx_ref c) of
                  Some (VCtx botCtx) \<Rightarrow>
                    (let st1 = st\<lparr>executed := executed st @ [(Identifier task, botCtx)]\<rparr>
                     in case Execute task botCtx of
                          (res, Some err) \<Rightarrow>
                            st1\<lparr>logged := logged st1 @
                              [Error (''error on scheduled task: '' @ Identifier task)]\<rparr>
                        | (None, None) \<Rightarrow> st1
                        | (Some res, None) \<Rightarrow>
                            st1\<lparr>sent := sent st1 @
                              [(b, botCtx, NewOutputMessage (Destination task) (Content res))]\<rparr>)
                | _ \<Rightarrow> st)
           | _ \<Rightarrow> st)
      | _ \<Rightarrow> st)"

definition cron_fire :: "nat \<Rightarrow> runner_state \<Rightarrow> runner_state" where
  "cron_fire i st =
     (if cron_started st \<and> i < length (cron_entries st)
      then fire (snd (cron_entries st ! i)) st else st)"

subsection \<open>The dispatch loop and its jobs\<close>

text \<open>What one \<open>select\<close> of \<open>respond\<close> takes: the done channel or an Input.\<close>

datatype select_event = CtxDone | Received BotInput

fun respond :: "context \<Rightarrow> Bot \<Rightarrow> select_event list \<Rightarrow> runner_state \<Rightarrow> status \<times> runner_state" where
  "respond botCtx b [] st = (Blocked, st)"
| "respond botCtx b (CtxDone # evs) st =
     (Returned, st\<lparr>logged := logged st @ [Info ''stop responding to message due to context cancel'']\<rparr>)"
| "respond botCtx b (Received input # evs) st =
     respond botCtx b evs
       (EnqueueJob (RespondJob botCtx b input)
          (st\<lparr>logged := logged st @ [Debug (''responding to '' @ payload input)]\<rparr>))"

text \<open>A worker running a job.\<close>

fun run_job :: "job \<Rightarrow> runner_state \<Rightarrow> runner_state" where
  "run_job (RespondJob botCtx b input) st =
     (case Respond b botCtx input of
        (res, Some err) \<Rightarrow>
          st\<lparr>logged := logged st @ [Error (''error on message handling. error: '' @ err)]\<rparr>
      | (None, None) \<Rightarrow> st
      | (Some res, None) \<Rightarrow>
          st\<lparr>sent := sent st @ [(b, botCtx, NewOutputMessage (ReplyTo input) (Content res))]\<rparr>)"

subsection \<open>The fatal-error watch loop\<close>

text \<open>
  The errors arriving on \<open>errNotifier\<close>, in order; when they are used up the loop waits
  in the receive. The \<open>switch\<close> has one case and no default.
\<close>

fun stopUnrecoverableBot :: "bot_error list \<Rightarrow> context \<Rightarrow> runner_state \<Rightarrow> status \<times> runner_state" where
  "stopUnrecoverableBot [] stopBot st = (Blocked, st)"
| "stopUnrecoverableBot (BotNonContinuableError m # rest) stopBot st =
     (Returned, st\<lparr>logged := logged st @ [Error (''stop unrecoverable bot: '' @ m)],
                   cancelled := insert stopBot (cancelled st)\<rparr>)"
| "stopUnrecoverableBot (GenericError m # rest) stopBot st = stopUnrecoverableBot rest stopBot st"

section \<open>Measures used in the statements\<close>

text \<open>
  How many of the \<open>Connect\<close> calls numbered from \<open>a\<close> up to, not including, \<open>b\<close> gave
  a connection.
\<close>

definition established :: "world \<Rightarrow> Room \<Rightarrow> nat \<Rightarrow> nat \<Rightarrow> nat" where
  "established w room a b = length (filter (\<lambda>n. snd (Connect w room n) = None) [a..<b])"

text \<open>
  The state in which \<open>runEachRoom\<close> starts to connect, and the state after the
  connection \<open>c\<close> has been read to its end and closed.
\<close>

definition entering :: "Room \<Rightarrow> adapter_state \<Rightarrow> adapter_state" where
  "entering room s = s\<lparr>selects := Suc (selects s),
     alog := alog s @ [Info (''connecting to room: '' @ room)]\<rparr>"

definition drained :: "world \<Rightarrow> nat \<Rightarrow> adapter_state \<Rightarrow> adapter_state" where
  "drained w c s =
     (let r = receiveMessageRecursive (stream w c)
      in snd (after_receive c (recv_err r)
                (s\<lparr>receivedMessage := receivedMessage s @ forwarded r,
                   alog := alog s @ recv_log r\<rparr>)))"

text \<open>The Inputs a dispatch loop takes before it takes the done channel.\<close>

fun inputs_before_done :: "select_event list \<Rightarrow> BotInput list" where
  "inputs_before_done [] = []"
| "inputs_before_done (CtxDone # evs) = []"
| "inputs_before_done (Received input # evs) = input # inputs_before_done evs"

text \<open>
  The goroutines that \<open>Run\<close> is to start for the Bots \<open>bs\<close>, the first of them being
  the \<open>i\<close>-th: each watch loop listens on the error channel given to its own Bot and
  holds the cancel function of that Bot's context.
\<close>

fun started :: "context \<Rightarrow> nat \<Rightarrow> Bot list \<Rightarrow> goroutine list" where
  "started ctx i [] = []"
| "started ctx i (b # bs) =
     [GoRespond (Child ctx i) b i, GoStopUnrecoverableBot i (Child ctx i), GoBotRun (Child ctx i) b i i]
     @ started ctx (Suc i) bs"

text \<open>How far a context is from the background context.\<close>

fun depth :: "context \<Rightarrow> nat" where
  "depth Background = 0"
| "depth (Child parent i) = Suc (depth parent)"

subsection \<open>Kinds of stored values\<close>






section \<open>Example values\<close>

definition msg :: "string \<Rightarrow> BotInput" where
  "msg t = \<lparr>payload = t, ReplyTo = RoomDest ''r1''\<rparr>"

text \<open>
  A service that refuses twice before it connects and times out three times before it
  lists the rooms, with a context that is done from the second \<open>select\<close> on; a service
  that is down; a service that answers at once, with a context that is never done.
\<close>

definition w_flaky :: world where
  "w_flaky = \<lparr>Rooms = (\<lambda>n. if n < 3 then (None, Some ''timeout'') else (Some [''r1'', ''r2''], None)),
     Connect = (\<lambda>room n. if n < 2 then (None, Some ''refused'') else (Some 7, None)),
     stream = (\<lambda>c. [(msg ''hello'', None), (msg '''', Some (OtherError ''EOF''))]),
     ctx_done = (\<lambda>k. 1 \<le> k)\<rparr>"

definition w_down :: world where
  "w_down = \<lparr>Rooms = (\<lambda>n. (None, Some ''timeout'')),
     Connect = (\<lambda>room n. (None, Some ''refused'')),
     stream = (\<lambda>c. []),
     ctx_done = (\<lambda>k. False)\<rparr>"

definition never :: "nat \<Rightarrow> bool" where
  "never k = False"

definition w_calm :: world where
  "w_calm = \<lparr>Rooms = (\<lambda>n. (Some [''r1'', ''r2''], None)),
     Connect = (\<lambda>room n. (Some n, None)),
     stream = (\<lambda>c. []),
     ctx_done = never\<rparr>"

text \<open>The adapter's state after the connect step against the first two services.\<close>

definition s_connected :: adapter_state where
  "s_connected = adapter0\<lparr>connect_calls := 3, selects := 1,
     alog := [Info ''connecting to room: r1'', Error ''refused'', Error ''refused'']\<rparr>"

definition s_refused :: adapter_state where
  "s_refused = adapter0\<lparr>connect_calls := 10, selects := 1,
     alog := [Info ''connecting to room: r1'', Error ''refused'', Error ''refused'', Error ''refused'',
              Error ''refused'', Error ''refused'', Error ''refused'', Error ''refused'',
              Error ''refused'', Error ''refused'', Error ''refused'']\<rparr>"

text \<open>Bots, tasks and stashes.\<close>

definition ping_bot :: Bot where
  "ping_bot = \<lparr>BotType = ''gitter'', PluginConfigDir = ''/etc/sarah'',
     Respond = (\<lambda>c input. if payload input = ''ping'' then (Some \<lparr>Content = StringContent ''pong''\<rparr>, None)
                           else if payload input = ''boom'' then (None, Some ''handler failed'')
                           else (None, None))\<rparr>"

definition slack_a :: Bot where
  "slack_a = \<lparr>BotType = ''slack'', PluginConfigDir = ''/etc/a'', Respond = (\<lambda>c input. (None, None))\<rparr>"

definition slack_b :: Bot where
  "slack_b = \<lparr>BotType = ''slack'', PluginConfigDir = ''/etc/b'', Respond = (\<lambda>c input. (None, None))\<rparr>"

definition example_newBot :: "Adapter \<Rightarrow> string \<Rightarrow> Bot" where
  "example_newBot adapter dir = \<lparr>BotType = adapter_BotType adapter, PluginConfigDir = dir,
     Respond = (\<lambda>c input. (None, None))\<rparr>"

definition morning :: ScheduledTask where
  "morning = \<lparr>Identifier = ''morning'', Schedule = ''0 9 * * *'', Destination = RoomDest ''r1'',
     Execute = (\<lambda>c. (Some \<lparr>Content = StringContent ''good morning''\<rparr>, None))\<rparr>"

definition evening :: ScheduledTask where
  "evening = \<lparr>Identifier = ''evening'', Schedule = ''0 18 * * *'', Destination = RoomDest ''r2'',
     Execute = (\<lambda>c. (Some \<lparr>Content = StringContent ''good evening''\<rparr>, None))\<rparr>"

definition no_plugins :: stash where
  "no_plugins = \<lparr>build_commands = (\<lambda>t d. []), build_tasks = (\<lambda>t d. [])\<rparr>"


definition two_timers :: stash where
  "two_timers = \<lparr>build_commands = (\<lambda>t d. []), build_tasks = (\<lambda>t d. [morning, evening])\<rparr>"

text \<open>A scheduler that accepts every schedule.\<close>

definition accept_all :: "string \<Rightarrow> bool" where
  "accept_all s = True"

section \<open>Theorems\<close>

subsection \<open>The receive loop\<close>

lemma receive_loop_characterisation:
  "receive_loop rs ch lg =
     \<lparr>forwarded = ch @ delivered (takeWhile (\<lambda>r. \<not> fatal r) rs),
      recv_log = lg @ malformed_warnings (takeWhile (\<lambda>r. \<not> fatal r) rs),
      recv_status = (if list_ex fatal rs then Returned else Blocked),
      recv_err = (case dropWhile (\<lambda>r. \<not> fatal r) rs of [] \<Rightarrow> None | r # _ \<Rightarrow> snd r)\<rparr>"
proof (induction rs arbitrary: ch lg)
  case Nil
  show ?case by simp
next
  case (Cons r rs)
  obtain m err where r: "r = (m, err)" by (cases r)
  show ?case
  proof (cases err)
    case None
    with r Cons show ?thesis by simp
  next
    case (Some e)
    with r Cons show ?thesis by (cases e) simp_all
  qed
qed

text \<open>
  Claim C1. Whatever results the receiver produces, \<open>receiveMessageRecursive\<close> forwards
  exactly the successfully received messages that come before the first error of another
  kind, in the order received; keep-alives are skipped silently, malformed payloads are
  skipped with one warning each; the function returns at the first error that is neither,
  with that error, and has not returned as long as no such error has come.
\<close>

theorem receiveMessageRecursive_tri_state:
  "receiveMessageRecursive rs =
     \<lparr>forwarded = delivered (takeWhile (\<lambda>r. \<not> fatal r) rs),
      recv_log = Info ''start receiving message'' # malformed_warnings (takeWhile (\<lambda>r. \<not> fatal r) rs),
      recv_status = (if list_ex fatal rs then Returned else Blocked),
      recv_err = (case dropWhile (\<lambda>r. \<not> fatal r) rs of [] \<Rightarrow> None | r # _ \<Rightarrow> snd r)\<rparr>"
  by (simp add: receiveMessageRecursive_def receive_loop_characterisation)

theorem receiveMessageRecursive_tri_state_witness:
  "receiveMessageRecursive
     [(msg ''a'', None), (msg '''', Some EmptyPayloadError), (msg '''', Some (MalformedPayloadError ''bad'')),
      (msg ''b'', None), (msg '''', Some (OtherError ''eof'')), (msg ''c'', None)] =
   \<lparr>forwarded = [msg ''a'', msg ''b''],
    recv_log = [Info ''start receiving message'', Warn ''skipping malformed input: bad''],
    recv_status = Returned, recv_err = Some (OtherError ''eof'')\<rparr>"
  using receiveMessageRecursive_tri_state [of "[(msg ''a'', None), (msg '''', Some EmptyPayloadError), (msg '''', Some (MalformedPayloadError ''bad'')),
      (msg ''b'', None), (msg '''', Some (OtherError ''eof'')), (msg ''c'', None)]"]
  by simp

subsection \<open>The connect step\<close>

lemma connect_attempt_frame:
  "connect_attempt w room (conn, s) = (e, (r, s')) \<Longrightarrow>
     connect_calls s' = Suc (connect_calls s) \<and> errCh s' = errCh s \<and> receivedMessage s' = receivedMessage s
     \<and> selects s' = selects s \<and> closed_conns s' = closed_conns s \<and> rooms_calls s' = rooms_calls s
     \<and> posted s' = posted s \<and> spawned s' = spawned s \<and> (r, e) = Connect w room (connect_calls s)"
  by (auto simp: connect_attempt_def Let_def split: prod.splits option.splits)

lemma retry_connect_success:
  "k < trial \<Longrightarrow> (\<forall>j<k. snd (Connect w room (connect_calls s + j)) \<noteq> None) \<Longrightarrow>
   Connect w room (connect_calls s + k) = (c, None) \<Longrightarrow>
   retry_loop trial (connect_attempt w room) errs (conn, s) =
     (None, (c, s\<lparr>connect_calls := connect_calls s + k + 1,
                  alog := alog s @ map (\<lambda>j. Error (the (snd (Connect w room (connect_calls s + j))))) [0..<k]\<rparr>))"
proof (induction k arbitrary: trial s errs conn)
  case 0
  then obtain t where t: "trial = Suc t" by (cases trial) auto
  with 0 show ?case by (simp add: connect_attempt_def)
next
  case (Suc k)
  then obtain t where t: "trial = Suc t" and kt: "k < t" by (cases trial) auto
  from Suc.prems(2) obtain e r where c0: "Connect w room (connect_calls s) = (r, Some e)"
    by (cases "Connect w room (connect_calls s)") force
  let ?s' = "s\<lparr>connect_calls := Suc (connect_calls s), alog := alog s @ [Error e]\<rparr>"
  have step: "connect_attempt w room (conn, s) = (Some e, (r, ?s'))"
    using c0 by (simp add: connect_attempt_def)
  have a: "\<forall>j<k. snd (Connect w room (connect_calls ?s' + j)) \<noteq> None"
    using Suc.prems(2) by (auto simp: )
  have b: "Connect w room (connect_calls ?s' + k) = (c, None)"
    using Suc.prems(3) by simp
  have "map (\<lambda>j. Error (the (snd (Connect w room (connect_calls s + j))))) [0..<Suc k]
      = Error e # map (\<lambda>j. Error (the (snd (Connect w room (Suc (connect_calls s) + j))))) [0..<k]"
    using c0 by (simp add: upt_conv_Cons map_Suc_upt[symmetric] del: upt_Suc)
  with Suc.IH[OF kt a b, of "errs @ [e]" r] step t show ?case
    by simp
qed


lemma retry_connect_exhausted:
  "(\<forall>j<trial. snd (Connect w room (connect_calls s + j)) \<noteq> None) \<Longrightarrow>
   retry_loop trial (connect_attempt w room) errs (conn, s) =
     (Some (errs @ map (\<lambda>j. the (snd (Connect w room (connect_calls s + j)))) [0..<trial]),
      (if trial = 0 then conn else fst (Connect w room (connect_calls s + trial - 1)),
       s\<lparr>connect_calls := connect_calls s + trial,
         alog := alog s @ map (\<lambda>j. Error (the (snd (Connect w room (connect_calls s + j))))) [0..<trial]\<rparr>))"
proof (induction trial arbitrary: s errs conn)
  case 0
  show ?case by simp
next
  case (Suc t)
  from Suc.prems obtain e r where c0: "Connect w room (connect_calls s) = (r, Some e)"
    by (cases "Connect w room (connect_calls s)") force
  let ?s' = "s\<lparr>connect_calls := Suc (connect_calls s), alog := alog s @ [Error e]\<rparr>"
  have step: "connect_attempt w room (conn, s) = (Some e, (r, ?s'))"
    using c0 by (simp add: connect_attempt_def)
  have a: "\<forall>j<t. snd (Connect w room (connect_calls ?s' + j)) \<noteq> None"
    using Suc.prems by auto
  have m1: "map (\<lambda>j. Error (the (snd (Connect w room (connect_calls s + j))))) [0..<Suc t]
      = Error e # map (\<lambda>j. Error (the (snd (Connect w room (Suc (connect_calls s) + j))))) [0..<t]"
    using c0 by (simp add: upt_conv_Cons map_Suc_upt[symmetric] del: upt_Suc)
  have m2: "map (\<lambda>j. the (snd (Connect w room (connect_calls s + j)))) [0..<Suc t]
      = e # map (\<lambda>j. the (snd (Connect w room (Suc (connect_calls s) + j)))) [0..<t]"
    using c0 by (simp add: upt_conv_Cons map_Suc_upt[symmetric] del: upt_Suc)
  have last: "(if t = 0 then r else fst (Connect w room (connect_calls ?s' + t - 1)))
      = fst (Connect w room (connect_calls s + Suc t - 1))"
    using c0 by (cases t) simp_all
  show ?case
    using Suc.IH[OF a, of "errs @ [e]" r] step m1 m2 last by (simp del: upt_Suc)
qed

lemma retry_rooms_success:
  "k < trial \<Longrightarrow> (\<forall>j<k. snd (Rooms w (rooms_calls s + j)) \<noteq> None) \<Longrightarrow>
   Rooms w (rooms_calls s + k) = (rs, None) \<Longrightarrow>
   retry_loop trial (rooms_attempt w) errs (rooms, s) =
     (None, (rs, s\<lparr>rooms_calls := rooms_calls s + k + 1\<rparr>))"
proof (induction k arbitrary: trial s errs rooms)
  case 0
  then obtain t where t: "trial = Suc t" by (cases trial) auto
  with 0 show ?case by (simp add: rooms_attempt_def)
next
  case (Suc k)
  then obtain t where t: "trial = Suc t" and kt: "k < t" by (cases trial) auto
  from Suc.prems(2) obtain e r where c0: "Rooms w (rooms_calls s) = (r, Some e)"
    by (cases "Rooms w (rooms_calls s)") force
  let ?s' = "s\<lparr>rooms_calls := Suc (rooms_calls s)\<rparr>"
  have step: "rooms_attempt w (rooms, s) = (Some e, (r, ?s'))"
    using c0 by (simp add: rooms_attempt_def)
  have a: "\<forall>j<k. snd (Rooms w (rooms_calls ?s' + j)) \<noteq> None"
    using Suc.prems(2) by auto
  have b: "Rooms w (rooms_calls ?s' + k) = (rs, None)"
    using Suc.prems(3) by simp
  from Suc.IH[OF kt a b, of "errs @ [e]" r] step t show ?case
    by simp
qed

lemma retry_rooms_exhausted:
  "(\<forall>j<trial. snd (Rooms w (rooms_calls s + j)) \<noteq> None) \<Longrightarrow>
   retry_loop trial (rooms_attempt w) errs (rooms, s) =
     (Some (errs @ map (\<lambda>j. the (snd (Rooms w (rooms_calls s + j)))) [0..<trial]),
      (if trial = 0 then rooms else fst (Rooms w (rooms_calls s + trial - 1)),
       s\<lparr>rooms_calls := rooms_calls s + trial\<rparr>))"
proof (induction trial arbitrary: s errs rooms)
  case 0
  show ?case by simp
next
  case (Suc t)
  from Suc.prems obtain e r where c0: "Rooms w (rooms_calls s) = (r, Some e)"
    by (cases "Rooms w (rooms_calls s)") force
  let ?s' = "s\<lparr>rooms_calls := Suc (rooms_calls s)\<rparr>"
  have step: "rooms_attempt w (rooms, s) = (Some e, (r, ?s'))"
    using c0 by (simp add: rooms_attempt_def)
  have a: "\<forall>j<t. snd (Rooms w (rooms_calls ?s' + j)) \<noteq> None"
    using Suc.prems by auto
  have m2: "map (\<lambda>j. the (snd (Rooms w (rooms_calls s + j)))) [0..<Suc t]
      = e # map (\<lambda>j. the (snd (Rooms w (Suc (rooms_calls s) + j)))) [0..<t]"
    using c0 by (simp add: upt_conv_Cons map_Suc_upt[symmetric] del: upt_Suc)
  have last: "(if t = 0 then r else fst (Rooms w (rooms_calls ?s' + t - 1)))
      = fst (Rooms w (rooms_calls s + Suc t - 1))"
    using c0 by (cases t) simp_all
  show ?case
    using Suc.IH[OF a, of "errs @ [e]" r] step m2 last by (simp del: upt_Suc)
qed

text \<open>
  Claim C8. With the retry budget of 10: when the first \<open>k < 10\<close> attempts fail and the
  next one succeeds, \<open>connectRoom\<close> returns that connection with a nil error after
  exactly \<open>k + 1\<close> calls to \<open>Connect\<close>, of which one gave a connection; when 10
  attempts in a row fail it returns an error after exactly 10 calls. The same holds for
  \<open>fetchRooms\<close> and the calls to \<open>Rooms\<close>.
\<close>

theorem connect_step_retry_budget:
  "(k < 10 \<and> (\<forall>j<k. snd (Connect w room (connect_calls s + j)) \<noteq> None)
      \<and> Connect w room (connect_calls s + k) = (c, None)
    \<longrightarrow> (\<exists>s'. connectRoom w room s = ((c, None), s')
           \<and> connect_calls s' = connect_calls s + k + 1
           \<and> established w room (connect_calls s) (connect_calls s') = 1))
 \<and> ((\<forall>j<10. snd (Connect w room (connect_calls s + j)) \<noteq> None)
    \<longrightarrow> (\<exists>conn errs s'. connectRoom w room s = ((conn, Some errs), s')
           \<and> length errs = 10 \<and> connect_calls s' = connect_calls s + 10
           \<and> established w room (connect_calls s) (connect_calls s') = 0))
 \<and> (k < 10 \<and> (\<forall>j<k. snd (Rooms w (rooms_calls s + j)) \<noteq> None)
      \<and> Rooms w (rooms_calls s + k) = (rs, None)
    \<longrightarrow> (\<exists>s'. fetchRooms w s = ((rs, None), s') \<and> rooms_calls s' = rooms_calls s + k + 1))
 \<and> ((\<forall>j<10. snd (Rooms w (rooms_calls s + j)) \<noteq> None)
    \<longrightarrow> (\<exists>rooms errs s'. fetchRooms w s = ((rooms, Some errs), s')
           \<and> length errs = 10 \<and> rooms_calls s' = rooms_calls s + 10))"
proof (intro conjI impI)
  assume h: "k < 10 \<and> (\<forall>j<k. snd (Connect w room (connect_calls s + j)) \<noteq> None)
      \<and> Connect w room (connect_calls s + k) = (c, None)"
  have "filter (\<lambda>n. snd (Connect w room n) = None) [connect_calls s..<connect_calls s + k] = []"
    using h by (auto simp: filter_empty_conv nat_le_iff_add dest!: le_Suc_ex) 
  then have "established w room (connect_calls s) (connect_calls s + k + 1) = 1"
    using h by (simp add: established_def)
  then show "\<exists>s'. connectRoom w room s = ((c, None), s')
           \<and> connect_calls s' = connect_calls s + k + 1
           \<and> established w room (connect_calls s) (connect_calls s') = 1"
    using h retry_connect_success[of k 10 w room s c "[]" None]
    by (simp add: connectRoom_def RetryInterval_def)
next
  assume h: "\<forall>j<10. snd (Connect w room (connect_calls s + j)) \<noteq> None"
  have "filter (\<lambda>n. snd (Connect w room n) = None) [connect_calls s..<connect_calls s + 10] = []"
    using h by (auto simp: filter_empty_conv nat_le_iff_add dest!: le_Suc_ex)
  then have "established w room (connect_calls s) (connect_calls s + 10) = 0"
    by (simp add: established_def)
  then show "\<exists>conn errs s'. connectRoom w room s = ((conn, Some errs), s')
           \<and> length errs = 10 \<and> connect_calls s' = connect_calls s + 10
           \<and> established w room (connect_calls s) (connect_calls s') = 0"
    using retry_connect_exhausted[OF h, of "[]" None]
    by (simp add: connectRoom_def RetryInterval_def)
next
  assume h: "k < 10 \<and> (\<forall>j<k. snd (Rooms w (rooms_calls s + j)) \<noteq> None)
      \<and> Rooms w (rooms_calls s + k) = (rs, None)"
  then show "\<exists>s'. fetchRooms w s = ((rs, None), s') \<and> rooms_calls s' = rooms_calls s + k + 1"
    using retry_rooms_success[of k 10 w s rs "[]" None]
    by (simp add: fetchRooms_def RetryInterval_def)
next
  assume h: "\<forall>j<10. snd (Rooms w (rooms_calls s + j)) \<noteq> None"
  show "\<exists>rooms errs s'. fetchRooms w s = ((rooms, Some errs), s')
           \<and> length errs = 10 \<and> rooms_calls s' = rooms_calls s + 10"
    using retry_rooms_exhausted[OF h, of "[]" None]
    by (simp add: fetchRooms_def RetryInterval_def)
qed

theorem connect_step_retry_budget_witness:
  "(\<exists>s'. connectRoom w_flaky ''r1'' adapter0 = ((Some 7, None), s') \<and> connect_calls s' = 3
       \<and> established w_flaky ''r1'' 0 (connect_calls s') = 1)
 \<and> (\<exists>conn errs s'. connectRoom w_down ''r1'' adapter0 = ((conn, Some errs), s')
       \<and> length errs = 10 \<and> connect_calls s' = 10)
 \<and> (\<exists>s'. fetchRooms w_flaky adapter0 = ((Some [''r1'', ''r2''], None), s') \<and> rooms_calls s' = 4)
 \<and> (\<exists>rooms errs s'. fetchRooms w_down adapter0 = ((rooms, Some errs), s')
       \<and> length errs = 10 \<and> rooms_calls s' = 10)"
proof -
  have z: "connect_calls adapter0 = 0" "rooms_calls adapter0 = 0"
    by (simp_all add: adapter0_def)
  have h1: "(2::nat) < 10 \<and> (\<forall>j<2. snd (Connect w_flaky ''r1'' (connect_calls adapter0 + j)) \<noteq> None)
      \<and> Connect w_flaky ''r1'' (connect_calls adapter0 + 2) = (Some 7, None)"
    by (simp add: w_flaky_def z)
  have h2: "\<forall>j<10. snd (Connect w_down ''r1'' (connect_calls adapter0 + j)) \<noteq> None"
    by (simp add: w_down_def)
  have h3: "(3::nat) < 10 \<and> (\<forall>j<3. snd (Rooms w_flaky (rooms_calls adapter0 + j)) \<noteq> None)
      \<and> Rooms w_flaky (rooms_calls adapter0 + 3) = (Some [''r1'', ''r2''], None)"
    by (simp add: w_flaky_def z)
  have h4: "\<forall>j<10. snd (Rooms w_down (rooms_calls adapter0 + j)) \<noteq> None"
    by (simp add: w_down_def)
  note a = connect_step_retry_budget [where k = 2 and w = w_flaky and room = "''r1''" and s = adapter0 and c = "Some 7",
      THEN conjunct1, THEN mp, OF h1]
  note b = connect_step_retry_budget [where w = w_down and room = "''r1''" and s = adapter0,
      THEN conjunct2, THEN conjunct1, THEN mp, OF h2]
  note c = connect_step_retry_budget [where k = 3 and w = w_flaky and s = adapter0 and rs = "Some [''r1'', ''r2'']",
      THEN conjunct2, THEN conjunct2, THEN conjunct1, THEN mp, OF h3]
  note d = connect_step_retry_budget [where w = w_down and s = adapter0,
      THEN conjunct2, THEN conjunct2, THEN conjunct2, THEN mp, OF h4]
  from a b c d show ?thesis unfolding z by auto
qed

subsection \<open>Sending to gitter\<close>

text \<open>
  Claim C10. The gitter adapter's \<open>SendMessage\<close> posts exactly when the output's content
  is a string and its destination is a room: then the one effect is that post; in every
  other case the one effect is a log line and nothing is posted. The function has no
  result and no panicking branch.
\<close>

theorem Adapter_SendMessage_posts_iff:
  "(length (posted (Adapter_SendMessage out s)) = Suc (length (posted s))
      \<longleftrightarrow> (\<exists>c room. out_Content out = StringContent c \<and> out_Destination out = RoomDest room))
 \<and> (out_Content out = StringContent c \<and> out_Destination out = RoomDest room
      \<longrightarrow> Adapter_SendMessage out s = s\<lparr>posted := posted s @ [(room, c)]\<rparr>)
 \<and> (\<not> (\<exists>c room. out_Content out = StringContent c \<and> out_Destination out = RoomDest room)
      \<longrightarrow> (\<exists>line. Adapter_SendMessage out s = s\<lparr>alog := alog s @ [line]\<rparr>))"
  by (cases "out_Content out"; cases "out_Destination out")
     (auto simp: Adapter_SendMessage_def)

theorem Adapter_SendMessage_posts_iff_witness:
  "Adapter_SendMessage (NewOutputMessage (RoomDest ''r1'') (StringContent ''pong'')) adapter0
     = adapter0\<lparr>posted := [(''r1'', ''pong'')]\<rparr>
 \<and> (\<exists>line. Adapter_SendMessage (NewOutputMessage (OtherDest 0) (StringContent ''pong'')) adapter0
     = adapter0\<lparr>alog := [line]\<rparr>)"
proof -
  have h1: "out_Content (NewOutputMessage (RoomDest ''r1'') (StringContent ''pong'')) = StringContent ''pong''
     \<and> out_Destination (NewOutputMessage (RoomDest ''r1'') (StringContent ''pong'')) = RoomDest ''r1''"
    by (simp add: NewOutputMessage_def)
  have h2: "\<not> (\<exists>c room. out_Content (NewOutputMessage (OtherDest 0) (StringContent ''pong'')) = StringContent c
     \<and> out_Destination (NewOutputMessage (OtherDest 0) (StringContent ''pong'')) = RoomDest room)"
    by (simp add: NewOutputMessage_def)
  note a = Adapter_SendMessage_posts_iff [where out = "NewOutputMessage (RoomDest ''r1'') (StringContent ''pong'')"
      and s = adapter0, THEN conjunct2, THEN conjunct1, THEN mp, OF h1]
  note b = Adapter_SendMessage_posts_iff [where out = "NewOutputMessage (OtherDest 0) (StringContent ''pong'')"
      and s = adapter0, THEN conjunct2, THEN conjunct2, THEN mp, OF h2]
  from a b show ?thesis by (simp add: adapter0_def)
qed

subsection \<open>Dispatch and response jobs\<close>

lemma respond_queue:
  "worker_queue (snd (respond botCtx b evs st))
     = worker_queue st @ map (RespondJob botCtx b) (inputs_before_done evs)"
  by (induction botCtx b evs st rule: respond.induct) (simp_all add: EnqueueJob_def)

lemma respond_sent:
  "sent (snd (respond botCtx b evs st)) = sent st"
  by (induction botCtx b evs st rule: respond.induct) (simp_all add: EnqueueJob_def)

text \<open>
  Claim C9. The dispatch loop enqueues one job per Input it receives before the context
  is done, in order, and sends nothing itself. A job calls \<open>SendMessage\<close> exactly once,
  with the response's content and the Input's reply-target, if and only if \<open>Respond\<close>
  gives a response and a nil error; on an error its one effect is an error log line, and
  on a nil response with a nil error it has no effect.
\<close>

theorem respond_job_sends_iff:
  "worker_queue (snd (respond botCtx b evs st))
     = worker_queue st @ map (RespondJob botCtx b) (inputs_before_done evs)
 \<and> sent (snd (respond botCtx b evs st)) = sent st
 \<and> (Respond b botCtx input = (Some res, None) \<longrightarrow>
      run_job (RespondJob botCtx b input) st
        = st\<lparr>sent := sent st @ [(b, botCtx, \<lparr>out_Destination = ReplyTo input, out_Content = Content res\<rparr>)]\<rparr>)
 \<and> (Respond b botCtx input = (r, Some e) \<longrightarrow>
      (\<exists>line. run_job (RespondJob botCtx b input) st = st\<lparr>logged := logged st @ [Error line]\<rparr>))
 \<and> (Respond b botCtx input = (None, None) \<longrightarrow> run_job (RespondJob botCtx b input) st = st)
 \<and> (length (sent (run_job (RespondJob botCtx b input) st)) = Suc (length (sent st))
      \<longleftrightarrow> (\<exists>res. Respond b botCtx input = (Some res, None)))"
  by (cases "Respond b botCtx input" rule: prod.exhaust[where 'a = "PluginResponse option" and 'b = "string option"];
      cases "fst (Respond b botCtx input)"; cases "snd (Respond b botCtx input)")
     (auto simp: respond_queue respond_sent NewOutputMessage_def)

theorem respond_job_sends_iff_witness:
  "(\<exists>line. run_job (RespondJob (Child Background 0) ping_bot (msg ''boom'')) (NewRunner 10)
      = (NewRunner 10)\<lparr>logged := [Error line]\<rparr>)
 \<and> run_job (RespondJob (Child Background 0) ping_bot (msg ''ping'')) (NewRunner 10)
      = (NewRunner 10)\<lparr>sent := [(ping_bot, Child Background 0,
           \<lparr>out_Destination = RoomDest ''r1'', out_Content = StringContent ''pong''\<rparr>)]\<rparr>
 \<and> run_job (RespondJob (Child Background 0) ping_bot (msg ''hello'')) (NewRunner 10) = NewRunner 10
 \<and> worker_queue (snd (respond (Child Background 0) ping_bot
       [Received (msg ''ping''), Received (msg ''hello''), CtxDone, Received (msg ''late'')] (NewRunner 10)))
     = [RespondJob (Child Background 0) ping_bot (msg ''ping''),
        RespondJob (Child Background 0) ping_bot (msg ''hello'')]"
proof -
  have h1: "Respond ping_bot (Child Background 0) (msg ''ping'') = (Some \<lparr>Content = StringContent ''pong''\<rparr>, None)"
    by (simp add: ping_bot_def msg_def)
  have h2: "Respond ping_bot (Child Background 0) (msg ''boom'') = (None, Some ''handler failed'')"
    by (simp add: ping_bot_def msg_def)
  have h3: "Respond ping_bot (Child Background 0) (msg ''hello'') = (None, None)"
    by (simp add: ping_bot_def msg_def)
  note t = respond_job_sends_iff [where botCtx = "Child Background 0" and b = ping_bot and st = "NewRunner 10"]
  note a = t [where input = "msg ''ping''", THEN conjunct2, THEN conjunct2, THEN conjunct1, THEN mp, OF h1]
  note b = t [where input = "msg ''boom''", THEN conjunct2, THEN conjunct2, THEN conjunct2, THEN conjunct1, THEN mp, OF h2]
  note c = t [where input = "msg ''hello''", THEN conjunct2, THEN conjunct2, THEN conjunct2, THEN conjunct2, THEN conjunct1, THEN mp, OF h3]
  note d = t [where evs = "[Received (msg ''ping''), Received (msg ''hello''), CtxDone, Received (msg ''late'')]", THEN conjunct1]
  from a b c d show ?thesis by (simp add: NewRunner_def msg_def)
qed

subsection \<open>The watch loop\<close>

lemma add_tasks_frame:
  "next_addr (add_tasks acc a_task a_bot a_ctx ts st) = next_addr st
 \<and> worker_queue (add_tasks acc a_task a_bot a_ctx ts st) = worker_queue st
 \<and> goroutines (add_tasks acc a_task a_bot a_ctx ts st) = goroutines st
 \<and> executed (add_tasks acc a_task a_bot a_ctx ts st) = executed st
 \<and> sent (add_tasks acc a_task a_bot a_ctx ts st) = sent st
 \<and> logged (add_tasks acc a_task a_bot a_ctx ts st) = logged st
 \<and> appended (add_tasks acc a_task a_bot a_ctx ts st) = appended st
 \<and> (\<forall>a. a \<noteq> a_task \<longrightarrow> store (add_tasks acc a_task a_bot a_ctx ts st) a = store st a)"
  by (induction ts arbitrary: st) (simp_all add: Let_def)

lemma foldl_RegisterBot:
  "foldl RegisterBot r bs = r\<lparr>bots := bots r @ bs\<rparr>"
  by (induction bs arbitrary: r) (simp_all add: RegisterBot_def)

lemma run_bots_goroutines:
  "goroutines (run_bots sh acc ctx a_bot i bs st) = goroutines st @ started ctx i bs"
  by (induction bs arbitrary: i st) (simp_all add: Let_def add_tasks_frame)

lemma Runner_Run_goroutines:
  "goroutines (Runner_Run sh acc ctx (foldl RegisterBot (NewRunner qs) bs)) = started ctx 0 bs"
  by (simp add: Runner_Run_def Let_def run_bots_goroutines foldl_RegisterBot NewRunner_def)

lemma started_watch:
  "GoStopUnrecoverableBot e c \<in> set (started ctx i bs)
     \<longleftrightarrow> i \<le> e \<and> e < i + length bs \<and> c = Child ctx e"
proof (induction bs arbitrary: i)
  case Nil
  show ?case by simp
next
  case (Cons a bs)
  show ?case
  proof (cases "e = i")
    case True
    then show ?thesis using Cons[of "Suc i"] by auto
  next
    case False
    then show ?thesis using Cons[of "Suc i"] by auto
  qed
qed

lemma started_run:
  "GoBotRun c b inp e \<in> set (started ctx i bs)
     \<longleftrightarrow> i \<le> e \<and> e < i + length bs \<and> c = Child ctx e \<and> inp = e \<and> b = bs ! (e - i)"
proof (induction bs arbitrary: i)
  case Nil
  show ?case by simp
next
  case (Cons a bs)
  show ?case
  proof (cases "e = i")
    case True
    then show ?thesis using Cons[of "Suc i"] by auto
  next
    case False
    then have "(a # bs) ! (e - i) = bs ! (e - Suc i)" if "i \<le> e"
      using that by (simp add: nth_Cons')
    then show ?thesis using Cons[of "Suc i"] False by auto
  qed
qed

lemma started_respond:
  "GoRespond c b k \<in> set (started ctx i bs)
     \<longleftrightarrow> i \<le> k \<and> k < i + length bs \<and> c = Child ctx k \<and> b = bs ! (k - i)"
proof (induction bs arbitrary: i)
  case Nil
  show ?case by simp
next
  case (Cons a bs)
  show ?case
  proof (cases "k = i")
    case True
    then show ?thesis using Cons[of "Suc i"] by auto
  next
    case False
    then have "(a # bs) ! (k - i) = bs ! (k - Suc i)" if "i \<le> k"
      using that by (simp add: nth_Cons')
    then show ?thesis using Cons[of "Suc i"] False by auto
  qed
qed

lemma watch_skips_generic:
  "(\<forall>e\<in>set pre. \<exists>m. e = GenericError m) \<Longrightarrow>
     stopUnrecoverableBot (pre @ rest) stopBot st = stopUnrecoverableBot rest stopBot st"
  by (induction pre) auto

lemma Done_insert_deeper:
  "depth c < depth d \<Longrightarrow> Done (insert d C) c = Done C c"
  by (induction c) auto

text \<open>
  Claim C5, amended. \<open>Run\<close> starts, for the Bot numbered \<open>e\<close>, a watch loop on that Bot's
  own error channel holding the cancel function of that Bot's own context, the context
  under which the Bot's \<open>Run\<close> and its dispatch loop were started. In the watch loop a
  \<open>BotNonContinuableError\<close> is logged at error severity, cancels that context and ends
  the loop; this leaves the parent context and the context of every other Bot's \<open>Run\<close>
  and dispatch loop as they were, and the Worker Pool untouched. Any other error is
  dropped without a log line and without cancellation, and the loop keeps listening.
\<close>

theorem stopUnrecoverableBot_watch:
  "((\<forall>x\<in>set pre. \<exists>t. x = GenericError t) \<longrightarrow>
      stopUnrecoverableBot (pre @ BotNonContinuableError m # rest) (Child ctx i) st
        = (Returned, st\<lparr>logged := logged st @ [Error (''stop unrecoverable bot: '' @ m)],
                         cancelled := insert (Child ctx i) (cancelled st)\<rparr>))
 \<and> ((\<forall>x\<in>set es. \<exists>t. x = GenericError t) \<longrightarrow>
      stopUnrecoverableBot es (Child ctx i) st = (Blocked, st))
 \<and> (i \<noteq> j \<longrightarrow> Done (insert (Child ctx i) C) (Child ctx j) = Done C (Child ctx j))
 \<and> Done (insert (Child ctx i) C) ctx = Done C ctx
 \<and> goroutines (Runner_Run sh accepts ctx (foldl RegisterBot (NewRunner qs) bs)) = started ctx 0 bs
 \<and> (GoStopUnrecoverableBot e stopBot
        \<in> set (goroutines (Runner_Run sh accepts ctx (foldl RegisterBot (NewRunner qs) bs))) \<longrightarrow>
      e < length bs \<and> stopBot = Child ctx e
    \<and> GoBotRun stopBot (bs ! e) e e
        \<in> set (goroutines (Runner_Run sh accepts ctx (foldl RegisterBot (NewRunner qs) bs)))
    \<and> GoRespond stopBot (bs ! e) e
        \<in> set (goroutines (Runner_Run sh accepts ctx (foldl RegisterBot (NewRunner qs) bs)))
    \<and> ((\<forall>x\<in>set pre. \<exists>t. x = GenericError t) \<longrightarrow>
          stopUnrecoverableBot (pre @ BotNonContinuableError m # rest) stopBot st
            = (Returned, st\<lparr>logged := logged st @ [Error (''stop unrecoverable bot: '' @ m)],
                             cancelled := insert (Child ctx e) (cancelled st)\<rparr>))
    \<and> ((\<forall>x\<in>set es. \<exists>t. x = GenericError t) \<longrightarrow>
          stopUnrecoverableBot es stopBot st = (Blocked, st))
    \<and> Done (insert stopBot C) stopBot
    \<and> Done (insert stopBot C) ctx = Done C ctx
    \<and> (GoBotRun c b inp e'
          \<in> set (goroutines (Runner_Run sh accepts ctx (foldl RegisterBot (NewRunner qs) bs))) \<longrightarrow>
        (e' = e \<longrightarrow> c = stopBot \<and> b = bs ! e \<and> inp = e)
      \<and> (e' \<noteq> e \<longrightarrow> Done (insert stopBot C) c = Done C c))
    \<and> (GoRespond c' b' k
          \<in> set (goroutines (Runner_Run sh accepts ctx (foldl RegisterBot (NewRunner qs) bs))) \<longrightarrow>
        (k = e \<longrightarrow> c' = stopBot \<and> b' = bs ! e)
      \<and> (k \<noteq> e \<longrightarrow> Done (insert stopBot C) c' = Done C c')))"
proof -
  have P1: "stopUnrecoverableBot (pre @ BotNonContinuableError m # rest) sb st
        = (Returned, st\<lparr>logged := logged st @ [Error (''stop unrecoverable bot: '' @ m)],
                         cancelled := insert sb (cancelled st)\<rparr>)"
    if "\<forall>x\<in>set pre. \<exists>t. x = GenericError t" for sb
    using that by (simp add: watch_skips_generic)
  have P2: "stopUnrecoverableBot es sb st = (Blocked, st)"
    if "\<forall>x\<in>set es. \<exists>t. x = GenericError t" for sb
    using that watch_skips_generic [of es "[]" sb st] by simp
  have P4: "Done (insert (Child ctx n) C) ctx = Done C ctx" for n
    by (rule Done_insert_deeper) simp
  have P3: "Done (insert (Child ctx n) C) (Child ctx n') = Done C (Child ctx n')" if "n \<noteq> n'" for n n'
    using that P4[of n] by simp
  note G = Runner_Run_goroutines[of sh accepts ctx qs bs]
  have W: "e < length bs \<and> stopBot = Child ctx e
    \<and> GoBotRun stopBot (bs ! e) e e \<in> set (started ctx 0 bs)
    \<and> GoRespond stopBot (bs ! e) e \<in> set (started ctx 0 bs)
    \<and> Done (insert stopBot C) stopBot
    \<and> Done (insert stopBot C) ctx = Done C ctx
    \<and> (GoBotRun c b inp e' \<in> set (started ctx 0 bs) \<longrightarrow>
        (e' = e \<longrightarrow> c = stopBot \<and> b = bs ! e \<and> inp = e)
      \<and> (e' \<noteq> e \<longrightarrow> Done (insert stopBot C) c = Done C c))
    \<and> (GoRespond c' b' k \<in> set (started ctx 0 bs) \<longrightarrow>
        (k = e \<longrightarrow> c' = stopBot \<and> b' = bs ! e)
      \<and> (k \<noteq> e \<longrightarrow> Done (insert stopBot C) c' = Done C c'))"
    if h: "GoStopUnrecoverableBot e stopBot \<in> set (started ctx 0 bs)"
  proof -
    from h have e: "e < length bs" "stopBot = Child ctx e"
      by (simp_all add: started_watch)
    have r1: "GoBotRun stopBot (bs ! e) e e \<in> set (started ctx 0 bs)"
      using e by (simp add: started_run)
    have r2: "GoRespond stopBot (bs ! e) e \<in> set (started ctx 0 bs)"
      using e by (simp add: started_respond)
    have r3: "Done (insert stopBot C) stopBot" using e by simp
    have r5: "(e' = e \<longrightarrow> c = stopBot \<and> b = bs ! e \<and> inp = e)
      \<and> (e' \<noteq> e \<longrightarrow> Done (insert stopBot C) c = Done C c)"
      if "GoBotRun c b inp e' \<in> set (started ctx 0 bs)"
      using that e P3[of e e'] by (auto simp: started_run)
    have r6: "(k = e \<longrightarrow> c' = stopBot \<and> b' = bs ! e)
      \<and> (k \<noteq> e \<longrightarrow> Done (insert stopBot C) c' = Done C c')"
      if "GoRespond c' b' k \<in> set (started ctx 0 bs)"
      using that e P3[of e k] by (auto simp: started_respond)
    from e r1 r2 r3 P4[of e] r5 r6 show ?thesis by blast
  qed
  have A: "((\<forall>x\<in>set pre. \<exists>t. x = GenericError t) \<longrightarrow>
      stopUnrecoverableBot (pre @ BotNonContinuableError m # rest) (Child ctx i) st
        = (Returned, st\<lparr>logged := logged st @ [Error (''stop unrecoverable bot: '' @ m)],
                         cancelled := insert (Child ctx i) (cancelled st)\<rparr>))
 \<and> ((\<forall>x\<in>set es. \<exists>t. x = GenericError t) \<longrightarrow>
      stopUnrecoverableBot es (Child ctx i) st = (Blocked, st))
 \<and> (i \<noteq> j \<longrightarrow> Done (insert (Child ctx i) C) (Child ctx j) = Done C (Child ctx j))
 \<and> Done (insert (Child ctx i) C) ctx = Done C ctx"
    using P1[of "Child ctx i"] P2[of "Child ctx i"] P3[of i j] P4[of i] by blast
  have B: "e < length bs \<and> stopBot = Child ctx e
    \<and> GoBotRun stopBot (bs ! e) e e \<in> set (started ctx 0 bs)
    \<and> GoRespond stopBot (bs ! e) e \<in> set (started ctx 0 bs)
    \<and> ((\<forall>x\<in>set pre. \<exists>t. x = GenericError t) \<longrightarrow>
          stopUnrecoverableBot (pre @ BotNonContinuableError m # rest) stopBot st
            = (Returned, st\<lparr>logged := logged st @ [Error (''stop unrecoverable bot: '' @ m)],
                             cancelled := insert (Child ctx e) (cancelled st)\<rparr>))
    \<and> ((\<forall>x\<in>set es. \<exists>t. x = GenericError t) \<longrightarrow>
          stopUnrecoverableBot es stopBot st = (Blocked, st))
    \<and> Done (insert stopBot C) stopBot
    \<and> Done (insert stopBot C) ctx = Done C ctx
    \<and> (GoBotRun c b inp e' \<in> set (started ctx 0 bs) \<longrightarrow>
        (e' = e \<longrightarrow> c = stopBot \<and> b = bs ! e \<and> inp = e)
      \<and> (e' \<noteq> e \<longrightarrow> Done (insert stopBot C) c = Done C c))
    \<and> (GoRespond c' b' k \<in> set (started ctx 0 bs) \<longrightarrow>
        (k = e \<longrightarrow> c' = stopBot \<and> b' = bs ! e)
      \<and> (k \<noteq> e \<longrightarrow> Done (insert stopBot C) c' = Done C c'))"
    if h: "GoStopUnrecoverableBot e stopBot \<in> set (started ctx 0 bs)"
  proof -
    note w = W[OF h]
    from w have sb: "stopBot = Child ctx e" by blast
    have q1: "(\<forall>x\<in>set pre. \<exists>t. x = GenericError t) \<longrightarrow>
          stopUnrecoverableBot (pre @ BotNonContinuableError m # rest) stopBot st
            = (Returned, st\<lparr>logged := logged st @ [Error (''stop unrecoverable bot: '' @ m)],
                             cancelled := insert (Child ctx e) (cancelled st)\<rparr>)"
      using P1[of stopBot] unfolding sb by blast
    have q2: "(\<forall>x\<in>set es. \<exists>t. x = GenericError t) \<longrightarrow>
          stopUnrecoverableBot es stopBot st = (Blocked, st)"
      using P2[of stopBot] by blast
    from w q1 q2 show ?thesis by blast
  qed
  from A G B show ?thesis
    unfolding G by blast
qed

theorem stopUnrecoverableBot_watch_witness:
  "stopUnrecoverableBot [GenericError ''slow'', BotNonContinuableError ''no rooms'', GenericError ''late'']
      (Child Background 0) (NewRunner 10)
     = (Returned, (NewRunner 10)\<lparr>logged := [Error ''stop unrecoverable bot: no rooms''],
                                 cancelled := {Child Background 0}\<rparr>)
 \<and> stopUnrecoverableBot [GenericError ''slow'', GenericError ''slower''] (Child Background 0) (NewRunner 10)
     = (Blocked, NewRunner 10)
 \<and> \<not> Done {Child Background 0} (Child Background 1)
 \<and> \<not> Done {Child Background 0} Background
 \<and> Done {Child Background 0} (Child Background 0)
 \<and> goroutines (Runner_Run no_plugins accept_all Background (foldl RegisterBot (NewRunner 10) [ping_bot, slack_a]))
     = [GoRespond (Child Background 0) ping_bot 0, GoStopUnrecoverableBot 0 (Child Background 0),
        GoBotRun (Child Background 0) ping_bot 0 0,
        GoRespond (Child Background 1) slack_a 1, GoStopUnrecoverableBot 1 (Child Background 1),
        GoBotRun (Child Background 1) slack_a 1 1]
 \<and> GoBotRun (Child Background 0) ([ping_bot, slack_a] ! 0) 0 0
     \<in> set (goroutines (Runner_Run no_plugins accept_all Background
                (foldl RegisterBot (NewRunner 10) [ping_bot, slack_a])))"
proof -
  let ?G = "goroutines (Runner_Run no_plugins accept_all Background
              (foldl RegisterBot (NewRunner 10) [ping_bot, slack_a]))"
  have ev: "?G = [GoRespond (Child Background 0) ping_bot 0, GoStopUnrecoverableBot 0 (Child Background 0),
        GoBotRun (Child Background 0) ping_bot 0 0,
        GoRespond (Child Background 1) slack_a 1, GoStopUnrecoverableBot 1 (Child Background 1),
        GoBotRun (Child Background 1) slack_a 1 1]"
    by (simp add: RegisterBot_def NewRunner_def Runner_Run_def Let_def no_plugins_def accept_all_def)
  have h1: "\<forall>x\<in>set [GenericError ''slow'']. \<exists>t. x = GenericError t" by simp
  have h2: "\<forall>x\<in>set [GenericError ''slow'', GenericError ''slower'']. \<exists>t. x = GenericError t" by simp
  have h3: "(0::nat) \<noteq> 1" "(1::nat) \<noteq> 0" by simp_all
  have hG: "GoStopUnrecoverableBot 0 (Child Background 0) \<in> set ?G"
    unfolding ev by simp
  have hR: "GoBotRun (Child Background 1) slack_a 1 1 \<in> set ?G"
    unfolding ev by simp
  have hP: "GoRespond (Child Background 1) slack_a 1 \<in> set ?G"
    unfolding ev by simp
  note t = stopUnrecoverableBot_watch [where ctx = Background and i = 0 and st = "NewRunner 10" and C = "{}"
      and sh = no_plugins and accepts = accept_all and qs = 10 and bs = "[ping_bot, slack_a]"
      and e = 0 and stopBot = "Child Background 0"
      and pre = "[GenericError ''slow'']" and m = "''no rooms''" and rest = "[GenericError ''late'']"
      and es = "[GenericError ''slow'', GenericError ''slower'']" and j = 1
      and c = "Child Background 1" and b = slack_a and inp = 1 and e' = 1
      and c' = "Child Background 1" and b' = slack_a and k = 1]
  note a = t [THEN conjunct1, THEN mp, OF h1]
  note b = t [THEN conjunct2, THEN conjunct1, THEN mp, OF h2]
  note c = t [THEN conjunct2, THEN conjunct2, THEN conjunct1, THEN mp, OF h3(1)]
  note d = t [THEN conjunct2, THEN conjunct2, THEN conjunct2, THEN conjunct1]
  note w = t [THEN conjunct2, THEN conjunct2, THEN conjunct2, THEN conjunct2, THEN conjunct2, THEN mp, OF hG]
  note w1 = w [THEN conjunct2, THEN conjunct2, THEN conjunct1]
  note w2 = w [THEN conjunct2, THEN conjunct2, THEN conjunct2, THEN conjunct2, THEN conjunct2, THEN conjunct2, THEN conjunct1]
  note w3 = w [THEN conjunct2, THEN conjunct2, THEN conjunct2, THEN conjunct2, THEN conjunct1, THEN mp, OF h1]
  note w4 = w [THEN conjunct2, THEN conjunct2, THEN conjunct2, THEN conjunct2, THEN conjunct2, THEN conjunct2, THEN conjunct2, THEN conjunct2, THEN conjunct1, THEN mp, OF hR, THEN conjunct2, THEN mp, OF h3(2)]
  note w5 = w [THEN conjunct2, THEN conjunct2, THEN conjunct2, THEN conjunct2, THEN conjunct2, THEN conjunct2, THEN conjunct2, THEN conjunct2, THEN conjunct2, THEN mp, OF hP, THEN conjunct2, THEN mp, OF h3(2)]
  have z: "logged (NewRunner 10) = []" "cancelled (NewRunner 10) = {}"
    by (simp_all add: NewRunner_def)
  from w3 have r1: "stopUnrecoverableBot
      [GenericError ''slow'', BotNonContinuableError ''no rooms'', GenericError ''late'']
      (Child Background 0) (NewRunner 10)
     = (Returned, (NewRunner 10)\<lparr>logged := [Error ''stop unrecoverable bot: no rooms''],
                                 cancelled := {Child Background 0}\<rparr>)"
    unfolding z by simp
  note r2 = b
  from w4 c have r3: "\<not> Done {Child Background 0} (Child Background 1)" by simp
  from d have r4: "\<not> Done {Child Background 0} Background" by simp
  from w2 have r5: "Done {Child Background 0} (Child Background 0)" by simp
  from a r1 r2 r3 r4 r5 ev w1 show ?thesis by (intro conjI)
qed

text \<open>
  Claim C5 as stated says that an error of another type is logged. The watch loop
  receives one generic error and logs nothing.
\<close>

theorem stopUnrecoverableBot_generic_not_logged:
  "logged (snd (stopUnrecoverableBot [GenericError ''connection reset''] (Child Background 0) (NewRunner 10))) = []
 \<and> fst (stopUnrecoverableBot [GenericError ''connection reset''] (Child Background 0) (NewRunner 10)) = Blocked"
  by (simp add: NewRunner_def)

subsection \<open>Registration of Bots\<close>

text \<open>
  Claim C2 at a failing input. Two Bots of BotType \<open>slack\<close> given to \<open>RegisterBot\<close> are
  both stored, and \<open>Run\<close> starts the three goroutines of each; \<open>RegisterAdapter\<close> with
  the same BotType panics.
\<close>

theorem RegisterBot_accepts_duplicate_BotType:
  "BotType slack_a = BotType slack_b
 \<and> bots (RegisterBot (RegisterBot (NewRunner 10) slack_a) slack_b) = [slack_a, slack_b]
 \<and> goroutines (Runner_Run no_plugins accept_all Background
       (RegisterBot (RegisterBot (NewRunner 10) slack_a) slack_b))
     = [GoRespond (Child Background 0) slack_a 0, GoStopUnrecoverableBot 0 (Child Background 0),
        GoBotRun (Child Background 0) slack_a 0 0,
        GoRespond (Child Background 1) slack_b 1, GoStopUnrecoverableBot 1 (Child Background 1),
        GoBotRun (Child Background 1) slack_b 1 1]
 \<and> RegisterAdapter example_newBot (RegisterBot (NewRunner 10) slack_a) \<lparr>adapter_BotType = ''slack''\<rparr> ''/etc/b''
     = Inl ''BotType (slack) conflicted with stored Adapter.''"
  by (simp add: RegisterBot_def RegisterAdapter_def NewRunner_def Runner_Run_def Let_def no_plugins_def accept_all_def
      slack_a_def slack_b_def example_newBot_def)

subsection \<open>Cron callbacks\<close>

text \<open>
  Claim C4 at a failing input. One Bot with the tasks \<open>morning\<close> and \<open>evening\<close>: the
  first cron entry is registered under the schedule of \<open>morning\<close>, and firing it executes
  \<open>evening\<close> and sends its message.
\<close>

theorem cron_callbacks_share_task_variable:
  "map fst (cron_entries (Runner_Run two_timers accept_all Background (RegisterBot (NewRunner 10) slack_a)))
     = [Schedule morning, Schedule evening]
 \<and> executed (cron_fire 0 (Runner_Run two_timers accept_all Background (RegisterBot (NewRunner 10) slack_a)))
     = [(Identifier evening, Child Background 0)]
 \<and> map (out_Content \<circ> snd \<circ> snd)
     (sent (cron_fire 0 (Runner_Run two_timers accept_all Background (RegisterBot (NewRunner 10) slack_a))))
     = [StringContent ''good evening'']"
  by (simp add: RegisterBot_def NewRunner_def Runner_Run_def Let_def two_timers_def accept_all_def cron_fire_def fire_def
      NewOutputMessage_def slack_a_def morning_def evening_def)









subsection \<open>The adapter's Run\<close>

lemma retry_rooms_frame:
  "retry_loop trial (rooms_attempt w) errs (rooms, s) = (e, (r, s')) \<Longrightarrow>
     s' = s\<lparr>rooms_calls := rooms_calls s'\<rparr>"
proof (induction trial arbitrary: errs rooms s)
  case 0
  then show ?case by simp
next
  case (Suc t)
  obtain r0 e0 where c0: "Rooms w (rooms_calls s) = (r0, e0)" by (cases "Rooms w (rooms_calls s)")
  show ?case
  proof (cases e0)
    case None
    with Suc.prems c0 show ?thesis by (auto simp: rooms_attempt_def)
  next
    case (Some m)
    with Suc.prems c0 have
      "retry_loop t (rooms_attempt w) (errs @ [m]) (r0, s\<lparr>rooms_calls := Suc (rooms_calls s)\<rparr>) = (e, (r, s'))"
      by (simp add: rooms_attempt_def)
    from Suc.IH[OF this] have "s' = s\<lparr>rooms_calls := rooms_calls s'\<rparr>" by simp
    then show ?thesis .
  qed
qed

text \<open>
  Claim C6, amended. The gitter adapter's \<open>Run\<close> does not wait for its context. When all
  10 attempts to fetch the rooms fail, it pushes one non-continuable error onto \<open>errCh\<close>
  and returns, having started no room goroutine. When an attempt within the budget gives
  the rooms, it starts one \<open>runEachRoom\<close> goroutine per room, in order, and returns. It
  never reads \<open>ctx.Done()\<close> and never connects itself. It does not panic as long as the
  REST client never returns a nil room list together with a nil error.
\<close>

theorem Adapter_Run_returns_after_starting_rooms:
  "((\<forall>j<10. snd (Rooms w (rooms_calls s + j)) \<noteq> None) \<longrightarrow>
      (\<exists>errs. length errs = 10 \<and>
         Adapter_Run w s = (Returned, s\<lparr>rooms_calls := rooms_calls s + 10,
            errCh := errCh s @ [BotNonContinuableError (Error_text errs)]\<rparr>)))
 \<and> (k < 10 \<and> (\<forall>j<k. snd (Rooms w (rooms_calls s + j)) \<noteq> None)
       \<and> Rooms w (rooms_calls s + k) = (Some rs, None) \<longrightarrow>
      Adapter_Run w s = (Returned, s\<lparr>rooms_calls := rooms_calls s + k + 1, spawned := spawned s @ rs\<rparr>))
 \<and> ((\<forall>n. Rooms w n \<noteq> (None, None)) \<longrightarrow> fst (Adapter_Run w s) = Returned)
 \<and> selects (snd (Adapter_Run w s)) = selects s
 \<and> connect_calls (snd (Adapter_Run w s)) = connect_calls s"
proof -
  have A: "\<exists>errs. length errs = 10 \<and>
         Adapter_Run w s = (Returned, s\<lparr>rooms_calls := rooms_calls s + 10,
            errCh := errCh s @ [BotNonContinuableError (Error_text errs)]\<rparr>)"
    if h: "\<forall>j<10. snd (Rooms w (rooms_calls s + j)) \<noteq> None"
  proof -
    let ?errs = "map (\<lambda>j. the (snd (Rooms w (rooms_calls s + j)))) [0..<10]"
    have "length ?errs = 10" by simp
    moreover have "Adapter_Run w s = (Returned, s\<lparr>rooms_calls := rooms_calls s + 10,
            errCh := errCh s @ [BotNonContinuableError (Error_text ?errs)]\<rparr>)"
      using retry_rooms_exhausted[OF h, of "[]" None]
      by (simp add: Adapter_Run_def fetchRooms_def RetryInterval_def NewBotAdapterNonContinuableError_def)
    ultimately show ?thesis by blast
  qed
  have B: "Adapter_Run w s = (Returned, s\<lparr>rooms_calls := rooms_calls s + k + 1, spawned := spawned s @ rs\<rparr>)"
    if h: "k < 10" "\<forall>j<k. snd (Rooms w (rooms_calls s + j)) \<noteq> None"
       "Rooms w (rooms_calls s + k) = (Some rs, None)" for k rs
    using retry_rooms_success[OF h, of "[]" None]
    by (simp add: Adapter_Run_def fetchRooms_def RetryInterval_def)
  have C: "fst (Adapter_Run w s) = Returned" if h: "\<forall>n. Rooms w n \<noteq> (None, None)"
  proof (cases "\<forall>j<10. snd (Rooms w (rooms_calls s + j)) \<noteq> None")
    case True
    from A[OF this] show ?thesis by auto
  next
    case False
    define k where "k = (LEAST j. snd (Rooms w (rooms_calls s + j)) = None)"
    from False obtain j0 where j0: "j0 < 10" "snd (Rooms w (rooms_calls s + j0)) = None" by auto
    have k1: "snd (Rooms w (rooms_calls s + k)) = None"
      unfolding k_def using j0(2) by (rule LeastI)
    have k2: "k < 10"
      using Least_le[of "\<lambda>j. snd (Rooms w (rooms_calls s + j)) = None" j0] j0 by (simp add: k_def)
    have k3: "\<forall>j<k. snd (Rooms w (rooms_calls s + j)) \<noteq> None"
      using not_less_Least[of _ "\<lambda>j. snd (Rooms w (rooms_calls s + j)) = None"] by (auto simp: k_def)
    from k1 h obtain rs where "Rooms w (rooms_calls s + k) = (Some rs, None)"
      by (cases "Rooms w (rooms_calls s + k)") (metis option.exhaust snd_conv)
    from B[OF k2 k3 this] show ?thesis by simp
  qed
  obtain e r s' where fr: "retry_loop 10 (rooms_attempt w) [] (None, s) = (e, (r, s'))"
    by (metis prod.exhaust)
  from retry_rooms_frame[OF fr] have s': "s' = s\<lparr>rooms_calls := rooms_calls s'\<rparr>" .
  have D: "selects (snd (Adapter_Run w s)) = selects s \<and> connect_calls (snd (Adapter_Run w s)) = connect_calls s"
    using fr s' by (cases e; cases r)
      (simp_all add: Adapter_Run_def fetchRooms_def RetryInterval_def, (metis adapter_state.select_convs adapter_state.surjective adapter_state.update_convs)+)
  from A B C D show ?thesis by blast
qed

theorem Adapter_Run_returns_after_starting_rooms_witness:
  "(\<exists>errs. length errs = 10 \<and>
      Adapter_Run w_down adapter0 = (Returned, adapter0\<lparr>rooms_calls := 10,
         errCh := [BotNonContinuableError (Error_text errs)]\<rparr>))
 \<and> Adapter_Run w_flaky adapter0 = (Returned, adapter0\<lparr>rooms_calls := 4, spawned := [''r1'', ''r2'']\<rparr>)
 \<and> fst (Adapter_Run w_flaky adapter0) = Returned"
proof -
  have z: "rooms_calls adapter0 = 0" "errCh adapter0 = []" "spawned adapter0 = []"
    by (simp_all add: adapter0_def)
  have h1: "\<forall>j<10. snd (Rooms w_down (rooms_calls adapter0 + j)) \<noteq> None"
    by (simp add: w_down_def)
  have h2: "(3::nat) < 10 \<and> (\<forall>j<3. snd (Rooms w_flaky (rooms_calls adapter0 + j)) \<noteq> None)
      \<and> Rooms w_flaky (rooms_calls adapter0 + 3) = (Some [''r1'', ''r2''], None)"
    by (simp add: w_flaky_def z)
  have h3: "\<forall>n. Rooms w_flaky n \<noteq> (None, None)"
    by (simp add: w_flaky_def)
  note a = Adapter_Run_returns_after_starting_rooms [where w = w_down and s = adapter0, THEN conjunct1, THEN mp, OF h1]
  note b = Adapter_Run_returns_after_starting_rooms [where w = w_flaky and s = adapter0 and k = 3 and rs = "[''r1'', ''r2'']",
      THEN conjunct2, THEN conjunct1, THEN mp, OF h2]
  note c = Adapter_Run_returns_after_starting_rooms [where w = w_flaky and s = adapter0,
      THEN conjunct2, THEN conjunct2, THEN conjunct1, THEN mp, OF h3]
  from a b c show ?thesis unfolding z by auto
qed

text \<open>
  Claim C6 as stated says that \<open>Run\<close> blocks until its context is cancelled. With a
  context that is never done and rooms fetched at the first attempt, \<open>Run\<close> has returned
  after starting the two room goroutines.
\<close>

theorem Adapter_Run_does_not_block:
  "fst (Adapter_Run w_calm adapter0) = Returned
 \<and> spawned (snd (Adapter_Run w_calm adapter0)) = [''r1'', ''r2'']
 \<and> selects (snd (Adapter_Run w_calm adapter0)) = 0
 \<and> ctx_done w_calm = never"
  by (simp add: Adapter_Run_def fetchRooms_def RetryInterval_def rooms_attempt_def w_calm_def adapter0_def
      eval_nat_numeral)

subsection \<open>The reconnect loop\<close>

lemma retry_connect_frame:
  "retry_loop trial (connect_attempt w room) errs (conn, s) = (e, (r, s')) \<Longrightarrow>
     errCh s' = errCh s \<and> receivedMessage s' = receivedMessage s \<and> selects s' = selects s
   \<and> closed_conns s' = closed_conns s \<and> connect_calls s \<le> connect_calls s'
   \<and> (0 < trial \<longrightarrow> connect_calls s < connect_calls s')"
proof (induction trial arbitrary: errs conn s)
  case 0
  then show ?case by simp
next
  case (Suc t)
  obtain e0 r0 s0 where a: "connect_attempt w room (conn, s) = (e0, (r0, s0))"
    by (metis prod.exhaust)
  note f = connect_attempt_frame[OF a]
  show ?case
  proof (cases e0)
    case None
    with Suc.prems a have "s' = s0" by simp
    with f show ?thesis by simp
  next
    case (Some m)
    with Suc.prems a have "retry_loop t (connect_attempt w room) (errs @ [m]) (r0, s0) = (e, (r, s'))"
      by simp
    from Suc.IH[OF this] f show ?thesis by simp
  qed
qed

lemma connectRoom_frame:
  "connectRoom w room s = ((conn, err), s') \<Longrightarrow>
     errCh s' = errCh s \<and> receivedMessage s' = receivedMessage s \<and> selects s' = selects s
   \<and> closed_conns s' = closed_conns s \<and> connect_calls s < connect_calls s'"
  using retry_connect_frame[of 10 w room "[]" None s err conn s']
  by (auto simp: connectRoom_def RetryInterval_def split: prod.splits)

lemma runEachRoom_frame:
  "errCh (snd (runEachRoom n w room s)) = errCh s
 \<and> connect_calls s \<le> connect_calls (snd (runEachRoom n w room s))"
proof (induction n arbitrary: s)
  case 0
  show ?case by simp
next
  case (Suc n)
  show ?case
  proof (cases "ctx_done w (selects s)")
    case True
    then show ?thesis by simp
  next
    case False
    obtain conn err s2 where cr: "connectRoom w room (entering room s) = ((conn, err), s2)"
      by (metis prod.exhaust)
    from connectRoom_frame[OF cr]
    have f: "errCh s2 = errCh s" "connect_calls s < connect_calls s2"
      by (simp_all add: entering_def)
    note cr' = cr[unfolded entering_def]
    show ?thesis
    proof (cases err)
      case (Some errs)
      with False cr' f show ?thesis by (simp add: Let_def)
    next
      case None
      show ?thesis
      proof (cases conn)
        case nil: None
        with None False cr' f show ?thesis by (simp add: Let_def)
      next
        case (Some c)
        let ?r = "receiveMessageRecursive (stream w c)"
        let ?s3 = "s2\<lparr>receivedMessage := receivedMessage s2 @ forwarded ?r, alog := alog s2 @ recv_log ?r\<rparr>"
        show ?thesis
        proof (cases "recv_status ?r = Returned")
          case blocked: False
          with None Some False cr' f show ?thesis by (simp add: Let_def)
        next
          case True
          show ?thesis
          proof (cases "recv_err ?r")
            case nilerr: None
            with True None Some False cr' f show ?thesis
              by (simp add: Let_def after_receive_def)
          next
            case (Some e)
            let ?s4 = "?s3\<lparr>closed_conns := closed_conns ?s3 @ [c], alog := alog ?s3 @ [Error (error_string e)]\<rparr>"
            have step: "runEachRoom (Suc n) w room s = runEachRoom n w room ?s4"
              using True None \<open>conn = Some c\<close> Some False cr'
              by (simp add: Let_def after_receive_def)
            from Suc.IH[of ?s4] f show ?thesis
              unfolding step by simp
          qed
        qed
      qed
    qed
  qed
qed

lemma receiveMessageRecursive_never_nil:
  "recv_status (receiveMessageRecursive rs) = Returned \<Longrightarrow> recv_err (receiveMessageRecursive rs) \<noteq> None"
proof -
  have "recv_status (receive_loop rs ch lg) = Returned \<Longrightarrow> recv_err (receive_loop rs ch lg) \<noteq> None"
    for ch lg
    by (induction rs ch lg rule: receive_loop.induct) (auto split: option.splits recv_error.splits)
  then show "recv_status (receiveMessageRecursive rs) = Returned \<Longrightarrow> recv_err (receiveMessageRecursive rs) \<noteq> None"
    by (simp add: receiveMessageRecursive_def)
qed

lemma runEachRoom_not_done:
  assumes "\<not> ctx_done w (selects s)"
      and "connectRoom w room (entering room s) = ((conn, err), s2)"
  shows "runEachRoom (Suc n) w room s =
     (if err \<noteq> None
      then (Returned, s2\<lparr>alog := alog s2 @ [Warn (''could not connect to room: '' @ room)]\<rparr>)
      else case conn of
        None \<Rightarrow> (Panicked, s2)
      | Some c \<Rightarrow>
          (let r = receiveMessageRecursive (stream w c);
               s3 = s2\<lparr>receivedMessage := receivedMessage s2 @ forwarded r, alog := alog s2 @ recv_log r\<rparr>
           in if recv_status r \<noteq> Returned then (Blocked, s3)
              else if recv_err r = None then (Returned, s3\<lparr>closed_conns := closed_conns s3 @ [c]\<rparr>)
              else runEachRoom n w room (drained w c s2)))"
  using assms
  by (simp add: entering_def drained_def Let_def after_receive_def split: option.splits)

lemma drained_frame:
  "recv_err (receiveMessageRecursive (stream w c)) = Some e \<Longrightarrow>
     closed_conns (drained w c s) = closed_conns s @ [c] \<and> selects (drained w c s) = selects s
   \<and> connect_calls (drained w c s) = connect_calls s \<and> errCh (drained w c s) = errCh s"
  by (simp add: drained_def after_receive_def Let_def)

lemma runEachRoom_connects:
  assumes "\<not> ctx_done w (selects s)"
  shows "connect_calls s < connect_calls (snd (runEachRoom (Suc n) w room s))"
proof -
  obtain conn err s2 where cr: "connectRoom w room (entering room s) = ((conn, err), s2)"
    by (metis prod.exhaust)
  from connectRoom_frame[OF cr] have lt: "connect_calls s < connect_calls s2"
    by (simp add: entering_def)
  note u = runEachRoom_not_done[OF assms cr, of n]
  show ?thesis
  proof (cases "err = None \<and> (\<exists>c. conn = Some c \<and> recv_status (receiveMessageRecursive (stream w c)) = Returned
      \<and> recv_err (receiveMessageRecursive (stream w c)) \<noteq> None)")
    case True
    then obtain c e where c: "err = None" "conn = Some c"
        "recv_status (receiveMessageRecursive (stream w c)) = Returned"
        "recv_err (receiveMessageRecursive (stream w c)) = Some e"
      by auto
    have "runEachRoom (Suc n) w room s = runEachRoom n w room (drained w c s2)"
      using u c by (simp add: Let_def)
    moreover have "connect_calls (drained w c s2) \<le> connect_calls (snd (runEachRoom n w room (drained w c s2)))"
      using runEachRoom_frame by blast
    moreover have "connect_calls (drained w c s2) = connect_calls s2"
      using drained_frame[OF c(4)] by simp
    ultimately show ?thesis using lt by simp
  next
    case False
    then show ?thesis using u lt
      by (cases conn) (auto simp: Let_def split: if_splits)
  qed
qed

text \<open>
  Claim C7. One iteration of \<open>runEachRoom\<close>, for any fuel: when the context is done the
  loop returns without connecting. When the connect step has used up its retries the
  loop returns after a warning, and has sent nothing on any channel and closed nothing.
  When \<open>receiveMessageRecursive\<close> returns an error the connection is closed and the loop
  goes round: it returns without a further \<open>Connect\<close> if the context is done at the next
  \<open>select\<close>, and otherwise it calls \<open>Connect\<close> again. A nil error closes the
  connection and ends the loop. No run of \<open>runEachRoom\<close> ever sends on \<open>errCh\<close>.
\<close>

theorem runEachRoom_reconnects:
  "(ctx_done w (selects s) \<longrightarrow>
      runEachRoom (Suc n) w room s = (Returned, s\<lparr>selects := Suc (selects s)\<rparr>))
 \<and> (\<not> ctx_done w (selects s) \<and> connectRoom w room (entering room s) = ((conn, Some errs), s2) \<longrightarrow>
      runEachRoom (Suc n) w room s
        = (Returned, s2\<lparr>alog := alog s2 @ [Warn (''could not connect to room: '' @ room)]\<rparr>)
      \<and> errCh s2 = errCh s \<and> receivedMessage s2 = receivedMessage s \<and> closed_conns s2 = closed_conns s)
 \<and> (\<not> ctx_done w (selects s) \<and> connectRoom w room (entering room s) = ((Some c, None), s2)
      \<and> recv_status (receiveMessageRecursive (stream w c)) = Returned
      \<and> recv_err (receiveMessageRecursive (stream w c)) = Some e \<longrightarrow>
      runEachRoom (Suc n) w room s = runEachRoom n w room (drained w c s2)
      \<and> closed_conns (drained w c s2) = closed_conns s @ [c]
      \<and> selects (drained w c s2) = Suc (selects s)
      \<and> (ctx_done w (Suc (selects s)) \<longrightarrow>
            runEachRoom (Suc (Suc n)) w room s
              = (Returned, (drained w c s2)\<lparr>selects := Suc (Suc (selects s))\<rparr>))
      \<and> (\<not> ctx_done w (Suc (selects s)) \<longrightarrow>
            connect_calls s2 < connect_calls (snd (runEachRoom (Suc (Suc n)) w room s))))
 \<and> after_receive c None s = (False, s\<lparr>closed_conns := closed_conns s @ [c]\<rparr>)
 \<and> errCh (snd (runEachRoom n w room s)) = errCh s"
proof -
  have A: "runEachRoom (Suc n) w room s = (Returned, s\<lparr>selects := Suc (selects s)\<rparr>)"
    if "ctx_done w (selects s)"
    using that by simp
  have B: "runEachRoom (Suc n) w room s
        = (Returned, s2\<lparr>alog := alog s2 @ [Warn (''could not connect to room: '' @ room)]\<rparr>)
      \<and> errCh s2 = errCh s \<and> receivedMessage s2 = receivedMessage s \<and> closed_conns s2 = closed_conns s"
    if h: "\<not> ctx_done w (selects s)" "connectRoom w room (entering room s) = ((conn, Some errs), s2)"
    using runEachRoom_not_done[OF h, of n] connectRoom_frame[OF h(2)]
    by (simp add: entering_def)
  have C: "runEachRoom (Suc n) w room s = runEachRoom n w room (drained w c s2)
      \<and> closed_conns (drained w c s2) = closed_conns s @ [c]
      \<and> selects (drained w c s2) = Suc (selects s)
      \<and> (ctx_done w (Suc (selects s)) \<longrightarrow>
            runEachRoom (Suc (Suc n)) w room s
              = (Returned, (drained w c s2)\<lparr>selects := Suc (Suc (selects s))\<rparr>))
      \<and> (\<not> ctx_done w (Suc (selects s)) \<longrightarrow>
            connect_calls s2 < connect_calls (snd (runEachRoom (Suc (Suc n)) w room s)))"
    if h: "\<not> ctx_done w (selects s)" "connectRoom w room (entering room s) = ((Some c, None), s2)"
          "recv_status (receiveMessageRecursive (stream w c)) = Returned"
          "recv_err (receiveMessageRecursive (stream w c)) = Some e"
  proof -
    have step: "runEachRoom (Suc m) w room s = runEachRoom m w room (drained w c s2)" for m
      using runEachRoom_not_done[OF h(1,2), of m] h(3,4) by (simp add: Let_def)
    note cf = connectRoom_frame[OF h(2)]
    note df = drained_frame[OF h(4), of s2]
    have c1: "closed_conns (drained w c s2) = closed_conns s @ [c]"
      using cf df by (simp add: entering_def)
    have c2: "selects (drained w c s2) = Suc (selects s)"
      using cf df by (simp add: entering_def)
    have c3: "runEachRoom (Suc (Suc n)) w room s
              = (Returned, (drained w c s2)\<lparr>selects := Suc (Suc (selects s))\<rparr>)"
      if "ctx_done w (Suc (selects s))"
      using that c2 by (simp only: step[of "Suc n"]) simp
    have c4: "connect_calls s2 < connect_calls (snd (runEachRoom (Suc (Suc n)) w room s))"
      if "\<not> ctx_done w (Suc (selects s))"
    proof -
      from that c2 have "\<not> ctx_done w (selects (drained w c s2))" by simp
      from runEachRoom_connects[OF this, of n room] df show ?thesis
        by (simp only: step[of "Suc n"])
    qed
    from step[of n] c1 c2 c3 c4 show ?thesis by blast
  qed
  have D: "after_receive c None s = (False, s\<lparr>closed_conns := closed_conns s @ [c]\<rparr>)"
    by (simp add: after_receive_def)
  have E: "errCh (snd (runEachRoom n w room s)) = errCh s"
    using runEachRoom_frame by blast
  from A B C D E show ?thesis by blast
qed

theorem runEachRoom_reconnects_witness:
  "runEachRoom (Suc 0) w_flaky ''r1'' (adapter0\<lparr>selects := 1\<rparr>) = (Returned, adapter0\<lparr>selects := 2\<rparr>)
 \<and> runEachRoom (Suc 0) w_down ''r1'' adapter0
      = (Returned, s_refused\<lparr>alog := alog s_refused @ [Warn ''could not connect to room: r1'']\<rparr>)
 \<and> errCh s_refused = []
 \<and> runEachRoom (Suc (Suc 0)) w_flaky ''r1'' adapter0
      = (Returned, (drained w_flaky 7 s_connected)\<lparr>selects := 2\<rparr>)
 \<and> closed_conns (drained w_flaky 7 s_connected) = [7]
 \<and> connect_calls ((drained w_flaky 7 s_connected)\<lparr>selects := 2\<rparr>) = 3"
proof -
  have h1: "ctx_done w_flaky (selects (adapter0\<lparr>selects := 1\<rparr>))"
    by (simp add: w_flaky_def)
  have h2: "\<not> ctx_done w_down (selects adapter0)
     \<and> connectRoom w_down ''r1'' (entering ''r1'' adapter0)
        = ((None, Some [''refused'', ''refused'', ''refused'', ''refused'', ''refused'',
                        ''refused'', ''refused'', ''refused'', ''refused'', ''refused'']), s_refused)"
    by (simp add: w_down_def connectRoom_def RetryInterval_def connect_attempt_def entering_def
        adapter0_def s_refused_def eval_nat_numeral)
  have h3: "\<not> ctx_done w_flaky (selects adapter0)
     \<and> connectRoom w_flaky ''r1'' (entering ''r1'' adapter0) = ((Some 7, None), s_connected)
     \<and> recv_status (receiveMessageRecursive (stream w_flaky 7)) = Returned
     \<and> recv_err (receiveMessageRecursive (stream w_flaky 7)) = Some (OtherError ''EOF'')"
    by (simp add: w_flaky_def connectRoom_def RetryInterval_def connect_attempt_def entering_def
        adapter0_def s_connected_def receiveMessageRecursive_def eval_nat_numeral)
  have h4: "ctx_done w_flaky (Suc (selects adapter0))"
    by (simp add: w_flaky_def adapter0_def)
  note a = runEachRoom_reconnects [where w = w_flaky and s = "adapter0\<lparr>selects := 1\<rparr>" and n = 0 and room = "''r1''",
      THEN conjunct1, THEN mp, OF h1]
  note b = runEachRoom_reconnects [where w = w_down and s = adapter0 and n = 0 and room = "''r1''",
      THEN conjunct2, THEN conjunct1, THEN mp, OF h2]
  note c = runEachRoom_reconnects [where w = w_flaky and s = adapter0 and n = 0 and room = "''r1''",
      THEN conjunct2, THEN conjunct2, THEN conjunct1, THEN mp, OF h3]
  from c h4 have c': "runEachRoom (Suc (Suc 0)) w_flaky ''r1'' adapter0
      = (Returned, (drained w_flaky 7 s_connected)\<lparr>selects := Suc (Suc (selects adapter0))\<rparr>)"
    by blast
  have z: "selects adapter0 = 0" "closed_conns adapter0 = []" "errCh adapter0 = []"
    by (simp_all add: adapter0_def)
  have d: "connect_calls ((drained w_flaky 7 s_connected)\<lparr>selects := 2\<rparr>) = 3"
    by (simp add: drained_def after_receive_def Let_def s_connected_def split: option.splits)
  have e: "Suc (Suc 0) = 2" "Suc 0 = 1" by simp_all
  from a b c c' d show ?thesis unfolding z e by simp
qed

end
